theory Spec2Isabelle
  imports Complex_Main "HOL-Library.Log_Nat"
begin

section \<open>The crawler of obwc.py: data model\<close>

text \<open>
  The theory embeds \<^verbatim>\<open>src/obwc.py\<close>: the keyword extractor
  \<^verbatim>\<open>extract_related_keywords\<close>, the recursive search
  \<^verbatim>\<open>search_videos_by_keyword\<close>, the configuration functions
  \<^verbatim>\<open>load_config\<close> and \<^verbatim>\<open>validate_config\<close>, and the driver \<^verbatim>\<open>main\<close>.

  What the code does to the outside is explicit: the search API, the random generator,
  the interpreter's enumeration of a \<^verbatim>\<open>set\<close> and the longest sleep the platform
  accepts are parameters of a run (\<open>env\<close>), the hidden state of the first two is the
  \<open>world\<close> of a \<open>state\<close>, and the queries, sleeps and calls of a run are recorded in
  its \<open>trace\<close>. The messages written with \<^verbatim>\<open>logging\<close> are left out. Text is
  ASCII. Integers are Python's unbounded integers; a float is the rational number that
  a finite IEEE double denotes, and every float operation rounds as the double
  operation does or overflows.

  Python exceptions are values of \<open>pyerror\<close>. \<open>HttpError status content\<close> carries
  \<^verbatim>\<open>e.resp.status\<close> and the text \<^verbatim>\<open>str(e.content)\<close>; \<open>OtherException\<close> is any
  other exception of the API client or of reading the configuration file.
\<close>

datatype pyerror =
  ValueError | OverflowError | ZeroDivisionError | HttpError int string | OtherException

text \<open>
  A number of the configuration, as \<^verbatim>\<open>json.load\<close> returns it: an \<^verbatim>\<open>int\<close> or a
  (finite) \<^verbatim>\<open>float\<close>.
\<close>

datatype pynum = PyInt int | PyFloat rat

definition num_value :: "pynum \<Rightarrow> rat" where
  "num_value x = (case x of PyInt i \<Rightarrow> of_int i | PyFloat q \<Rightarrow> q)"

text \<open>
  One element of \<^verbatim>\<open>search_response['items']\<close>. The fields the code reads with
  \<^verbatim>\<open>[...]\<close> are present (the API's contract); \<^verbatim>\<open>description\<close> is read with
  \<^verbatim>\<open>.get('description', '')\<close> and may be missing (\<open>None\<close>).
\<close>

record item =
  snippet_title :: string
  id_videoId :: string
  snippet_channelTitle :: string
  snippet_description :: "string option"

text \<open>What \<^verbatim>\<open>youtube.search().list(...).execute()\<close> does: it returns items or raises.\<close>

datatype response = Items "item list" | Failure pyerror

text \<open>The dictionary \<^verbatim>\<open>video_metadata\<close> (lines 106-112), with its five keys.\<close>

record video =
  title :: string
  url :: string
  channel :: string
  description :: string
  depth :: int

text \<open>
  The five arguments that \<^verbatim>\<open>search_videos_by_keyword\<close> hands on unchanged to every
  recursive call. \<^verbatim>\<open>api_key\<close> defaults to \<^verbatim>\<open>None\<close>.
\<close>

record params =
  max_results :: int
  max_depth :: int
  api_key :: "string option"
  max_retries :: int
  default_timeout :: pynum

text \<open>
  What a run does to the outside, in order: \<open>Invoke\<close> is an entry into
  \<^verbatim>\<open>search_videos_by_keyword\<close> with its arguments, \<open>Query\<close> one
  \<^verbatim>\<open>execute()\<close> of a search request, \<open>Sleep\<close> one \<^verbatim>\<open>time.sleep\<close> that returned,
  \<open>Save\<close> the writing of \<^verbatim>\<open>search_results.txt\<close>.
\<close>

datatype event = Invoke string int params | Query string int | Sleep rat | Save "video list"

text \<open>
  The environment of a run, over a world \<open>'w\<close> that the code cannot see: the search
  API, the random generator behind \<^verbatim>\<open>random.randint\<close>, the order in which the
  interpreter enumerates a \<^verbatim>\<open>set\<close> of strings (Python leaves it open), and the
  longest sleep, in seconds, that \<^verbatim>\<open>time.sleep\<close> accepts on the platform.
\<close>

record 'w env =
  execute :: "'w \<Rightarrow> string \<Rightarrow> int \<Rightarrow> response \<times> 'w"
  draw :: "'w \<Rightarrow> nat \<times> 'w"
  set_order :: "string list \<Rightarrow> string list"
  max_sleep :: rat

record 'w state =
  world :: 'w
  trace :: "event list"

definition emit :: "event \<Rightarrow> 'w state \<Rightarrow> 'w state" where
  "emit e st = st\<lparr>trace := trace st @ [e]\<rparr>"

section \<open>Library functions the code calls\<close>

text \<open>\<^verbatim>\<open>random.randint(a, b)\<close>: an integer between \<open>a\<close> and \<open>b\<close>, both included.\<close>

definition randint :: "'w env \<Rightarrow> nat \<Rightarrow> nat \<Rightarrow> 'w state \<Rightarrow> nat \<times> 'w state" where
  "randint env a b st =
     (case draw env (world st) of (r, w') \<Rightarrow> (a + r mod (b - a + 1), st\<lparr>world := w'\<rparr>))"

subsection \<open>Floats\<close>

text \<open>
  The double nearest to a rational number, ties to the even significand.
  \<open>floor_log2 q\<close> is the exponent \<open>e\<close> with \<open>2 ^ e \<le> q < 2 ^ (e + 1)\<close> of a
  positive \<open>q\<close>, and \<open>ulp q\<close> the distance between the doubles around \<open>q\<close>: 52
  binary places below the exponent, and never below \<open>2 ^ - 1074\<close>, the smallest
  positive double.
\<close>

definition floor_log2 :: "rat \<Rightarrow> int" where
  "floor_log2 q =
     (case quotient_of q of (a, b) \<Rightarrow>
        (let e = bitlen a - bitlen b in if 2 powi e \<le> q then e else e - 1))"

definition round_half_even :: "rat \<Rightarrow> int" where
  "round_half_even m =
     (let f = \<lfloor>m\<rfloor>; r = m - of_int f
      in if r < 1 / 2 then f else if 1 / 2 < r then f + 1 else if even f then f else f + 1)"

definition ulp :: "rat \<Rightarrow> rat" where
  "ulp q = 2 powi (max (floor_log2 q - 52) (- 1074))"

definition round_pos :: "rat \<Rightarrow> rat" where
  "round_pos q = (if q = 0 then 0 else of_int (round_half_even (q / ulp q)) * ulp q)"

definition round_double :: "rat \<Rightarrow> rat" where
  "round_double q = (if q < 0 then - round_pos (- q) else round_pos q)"

text \<open>
  A float value is a finite double or an infinity. A number whose magnitude reaches
  \<open>float_overflow\<close> (half a unit above the largest double) has no nearest double:
  a float operation with that exact result returns an infinity (\<open>rounded\<close>), and the
  conversion of such an \<^verbatim>\<open>int\<close> to a float raises \<^verbatim>\<open>OverflowError\<close>
  (\<open>int_to_float\<close>).
\<close>

datatype pyfloat = Finite rat | PosInf | NegInf

definition float_overflow :: rat where
  "float_overflow = 2 ^ 1024 - 2 ^ 970"

definition rounded :: "rat \<Rightarrow> pyfloat" where
  "rounded v =
     (if float_overflow \<le> v then PosInf
      else if v \<le> - float_overflow then NegInf
      else Finite (round_double v))"

definition int_to_float :: "int \<Rightarrow> pyerror + rat" where
  "int_to_float i =
     (if float_overflow \<le> \<bar>of_int i\<bar> then Inl OverflowError
      else Inr (round_double (of_int i)))"

text \<open>
  The arithmetic of line 132. \<open>times_power x n\<close> is \<^verbatim>\<open>x * (2 ** n)\<close>: exact on an
  \<^verbatim>\<open>int\<close>; with a float \<open>x\<close> the integer \<^verbatim>\<open>2 ** n\<close> is converted to a float
  first. \<open>int_divide a b\<close> is \<^verbatim>\<open>a / b\<close> on two integers with \<open>a \<le> b\<close>, the
  double nearest to the quotient. \<open>plus_float x y\<close> is \<^verbatim>\<open>x + y\<close> for a finite float
  \<open>y\<close>: an \<^verbatim>\<open>int\<close> \<open>x\<close> is converted to a float first.
\<close>

datatype pyvalue = IntValue int | FloatValue pyfloat

definition times_power :: "pynum \<Rightarrow> nat \<Rightarrow> pyerror + pyvalue" where
  "times_power x n =
     (case x of
        PyInt i \<Rightarrow> Inr (IntValue (i * 2 ^ n))
      | PyFloat q \<Rightarrow>
          (case int_to_float (2 ^ n) of
             Inl e \<Rightarrow> Inl e
           | Inr t \<Rightarrow> Inr (FloatValue (rounded (q * t)))))"

definition int_divide :: "nat \<Rightarrow> nat \<Rightarrow> rat" where
  "int_divide a b = round_double (rat_of_nat a / rat_of_nat b)"

definition plus_float :: "pyvalue \<Rightarrow> rat \<Rightarrow> pyerror + pyfloat" where
  "plus_float x y =
     (case x of
        IntValue i \<Rightarrow>
          (case int_to_float i of
             Inl e \<Rightarrow> Inl e
           | Inr a \<Rightarrow> Inr (rounded (a + y)))
      | FloatValue (Finite a) \<Rightarrow> Inr (rounded (a + y))
      | FloatValue PosInf \<Rightarrow> Inr PosInf
      | FloatValue NegInf \<Rightarrow> Inr NegInf)"

text \<open>\<^verbatim>\<open>1 / x\<close> (line 188).\<close>

definition one_over :: "pynum \<Rightarrow> pyerror + pyfloat" where
  "one_over x =
     (case x of
        PyInt i \<Rightarrow>
          if i = 0 then Inl ZeroDivisionError else Inr (Finite (round_double (1 / of_int i)))
      | PyFloat q \<Rightarrow>
          if q = 0 then Inl ZeroDivisionError else Inr (rounded (1 / q)))"

text \<open>
  \<^verbatim>\<open>time.sleep(secs)\<close> converts the length to the integer type of the clock and
  raises \<^verbatim>\<open>OverflowError\<close> when it does not fit (beyond \<open>max_sleep\<close> seconds, on
  either side); then it raises \<^verbatim>\<open>ValueError\<close> on a negative length; otherwise it
  sleeps.
\<close>

definition time_sleep :: "'w env \<Rightarrow> pyfloat \<Rightarrow> 'w state \<Rightarrow> pyerror + 'w state" where
  "time_sleep env secs st =
     (case secs of
        Finite v \<Rightarrow>
          if v < - max_sleep env \<or> max_sleep env < v then Inl OverflowError
          else if v < 0 then Inl ValueError
          else Inr (emit (Sleep v) st)
      | PosInf \<Rightarrow> Inl OverflowError
      | NegInf \<Rightarrow> Inl OverflowError)"

subsection \<open>Strings and sets\<close>

text \<open>\<^verbatim>\<open>sub in s\<close> on strings.\<close>

primrec contains :: "string \<Rightarrow> string \<Rightarrow> bool" where
  "contains sub [] = (sub = [])"
| "contains sub (c # cs) = (take (length sub) (c # cs) = sub \<or> contains sub cs)"

text \<open>
  \<^verbatim>\<open>s.lower()\<close> and \<^verbatim>\<open>re.findall(r'\w+', s)\<close> on ASCII text: a word character
  is a letter, a digit or the underscore, and a match is a maximal run of them.
\<close>

definition lower_char :: "char \<Rightarrow> char" where
  "lower_char c =
     (let n = (of_char c :: nat) in if 65 \<le> n \<and> n \<le> 90 then char_of (n + 32) else c)"

definition lower :: "string \<Rightarrow> string" where
  "lower s = map lower_char s"

definition is_word_char :: "char \<Rightarrow> bool" where
  "is_word_char c =
     (let n = (of_char c :: nat) in
        (48 \<le> n \<and> n \<le> 57) \<or> (65 \<le> n \<and> n \<le> 90) \<or> n = 95 \<or> (97 \<le> n \<and> n \<le> 122))"

fun findall_from :: "string \<Rightarrow> string \<Rightarrow> string list" where
  "findall_from cur [] = (if cur = [] then [] else [cur])"
| "findall_from cur (c # cs) =
     (if is_word_char c then findall_from (cur @ [c]) cs
      else if cur = [] then findall_from [] cs
      else cur # findall_from [] cs)"

definition findall_words :: "string \<Rightarrow> string list" where
  "findall_words s = findall_from [] s"

text \<open>
  \<^verbatim>\<open>list(set(xs))\<close>: the distinct elements of \<open>xs\<close>, each once, in the order the
  interpreter enumerates the set. The order is the environment's; an answer of
  \<open>set_order\<close> that is not an enumeration of the set is replaced by the order of first
  occurrence, so that the result is one for every environment.
\<close>

definition list_of_set :: "(string list \<Rightarrow> string list) \<Rightarrow> string list \<Rightarrow> string list" where
  "list_of_set ord xs =
     (let ys = ord (remdups xs) in if distinct ys \<and> set ys = set xs then ys else remdups xs)"

section \<open>extract_related_keywords (lines 145-168)\<close>

definition extract_related_keywords :: "'w env \<Rightarrow> video \<Rightarrow> string list" where
  "extract_related_keywords env video_metadata =
     (if description video_metadata = [] then []
      else
        let title_keywords = findall_words (lower (title video_metadata));
            description_keywords = findall_words (lower (description video_metadata))
        in list_of_set (set_order env) (title_keywords @ description_keywords))"

section \<open>search_videos_by_keyword (lines 78-143)\<close>

text \<open>The dictionary built for one search result (lines 106-112).\<close>

definition video_metadata_of :: "int \<Rightarrow> item \<Rightarrow> video" where
  "video_metadata_of d search_result =
     \<lparr>title = snippet_title search_result,
      url = ''https://www.youtube.com/watch?v='' @ id_videoId search_result,
      channel = snippet_channelTitle search_result,
      description = (case snippet_description search_result of None \<Rightarrow> [] | Some s \<Rightarrow> s),
      depth = d\<rparr>"

text \<open>
  The \<^verbatim>\<open>except\<close> clauses (lines 126-140), for an exception \<open>e\<close> raised in the
  \<^verbatim>\<open>try\<close> block of attempt \<open>n\<close>: \<open>Break\<close> leaves the retry loop, \<open>Continue\<close> goes on
  with the next \<open>n\<close>, and \<open>Escape\<close> is an exception raised inside the handler, which
  no clause catches.

  \<open>backoff\<close> is lines 132-134. The product \<^verbatim>\<open>default_timeout * (2 ** n)\<close> is
  computed first, then the random number is drawn and divided, then the two are added;
  each step may raise. \<^verbatim>\<open>time.sleep\<close> gets the sum.
\<close>

datatype 'w handled = Break "'w state" | Continue "'w state" | Escape pyerror "'w state"

definition backoff :: "'w env \<Rightarrow> params \<Rightarrow> nat \<Rightarrow> 'w state \<Rightarrow> 'w handled" where
  "backoff env p n st =
     (case times_power (default_timeout p) n of
        Inl e \<Rightarrow> Escape e st
      | Inr product \<Rightarrow>
          (case randint env 0 1000 st of (r, st1) \<Rightarrow>
             (case plus_float product (int_divide r 1000) of
                Inl e \<Rightarrow> Escape e st1
              | Inr sleep_time \<Rightarrow>
                  (case time_sleep env sleep_time st1 of
                     Inl e \<Rightarrow> Escape e st1
                   | Inr st2 \<Rightarrow> Continue st2))))"

fun handle_exception :: "'w env \<Rightarrow> params \<Rightarrow> nat \<Rightarrow> pyerror \<Rightarrow> 'w state \<Rightarrow> 'w handled" where
  "handle_exception env p n (HttpError status content) st =
     (if status = 403 \<and> contains ''quotaExceeded'' content then Break st
      else if status \<in> {403, 500, 503} then backoff env p n st
      else Break st)"
| "handle_exception env p n e st = Break st"

text \<open>
  The function and its three loops. \<open>retry_loop\<close> is \<^verbatim>\<open>for n in range(max_retries)\<close>
  from index \<open>n\<close> on, with the list \<open>videos\<close> of line 90, which the attempts share;
  \<open>process_items\<close> is the loop over the items (line 104) and \<open>keyword_loop\<close> the loop
  over the related keywords (line 120), which assigns the variable \<open>keyword\<close> of the
  function. The two inner loops run inside the \<^verbatim>\<open>try\<close>: they return the exception
  that left them, if any, the value of \<open>keyword\<close>, and \<open>videos\<close>. The argument
  \<^verbatim>\<open>depth\<close> is written \<open>d\<close> (\<open>depth\<close> is the field of a \<open>video\<close>), and \<open>p\<close>
  holds the five arguments that do not change.

  Building the client (line 87) is taken to succeed.
\<close>

function search_videos_by_keyword ::
    "'w env \<Rightarrow> string \<Rightarrow> int \<Rightarrow> params \<Rightarrow> 'w state \<Rightarrow> (pyerror + video list) \<times> 'w state"
  and retry_loop ::
    "'w env \<Rightarrow> string \<Rightarrow> int \<Rightarrow> params \<Rightarrow> nat \<Rightarrow> video list \<Rightarrow> 'w state
       \<Rightarrow> (pyerror + video list) \<times> 'w state"
  and process_items ::
    "'w env \<Rightarrow> int \<Rightarrow> params \<Rightarrow> item list \<Rightarrow> string \<Rightarrow> video list \<Rightarrow> 'w state
       \<Rightarrow> pyerror option \<times> string \<times> video list \<times> 'w state"
  and keyword_loop ::
    "'w env \<Rightarrow> int \<Rightarrow> params \<Rightarrow> string list \<Rightarrow> string \<Rightarrow> video list \<Rightarrow> 'w state
       \<Rightarrow> pyerror option \<times> string \<times> video list \<times> 'w state"
where
  "search_videos_by_keyword env keyword d p st =
     (let st0 = emit (Invoke keyword d p) st in
      if api_key p = None \<or> api_key p = Some [] then (Inl ValueError, st0)
      else retry_loop env keyword d p 0 [] st0)"
| "retry_loop env keyword d p n videos st =
     (if int n < max_retries p then
        (case execute env (world st) keyword (max_results p) of (resp, w') \<Rightarrow>
           (let st1 = emit (Query keyword (max_results p)) (st\<lparr>world := w'\<rparr>) in
            case resp of
              Items search_results \<Rightarrow>
                (case process_items env d p search_results keyword videos st1 of
                   (None, keyword', videos', st2) \<Rightarrow> (Inr videos', st2)
                 | (Some e, keyword', videos', st2) \<Rightarrow>
                     (case handle_exception env p n e st2 of
                        Break st3 \<Rightarrow> (Inr videos', st3)
                      | Continue st3 \<Rightarrow> retry_loop env keyword' d p (Suc n) videos' st3
                      | Escape e' st3 \<Rightarrow> (Inl e', st3)))
            | Failure e \<Rightarrow>
                (case handle_exception env p n e st1 of
                   Break st3 \<Rightarrow> (Inr videos, st3)
                 | Continue st3 \<Rightarrow> retry_loop env keyword d p (Suc n) videos st3
                 | Escape e' st3 \<Rightarrow> (Inl e', st3))))
      else (Inr videos, st))"
| "process_items env d p [] keyword videos st = (None, keyword, videos, st)"
| "process_items env d p (search_result # rest) keyword videos st =
     (let video_metadata = video_metadata_of d search_result;
          videos1 = videos @ [video_metadata]
      in if d < max_depth p then
           (let related_keywords = extract_related_keywords env video_metadata in
            if related_keywords \<noteq> [] then
              (case keyword_loop env d p related_keywords keyword videos1 st of
                 (None, keyword', videos', st') \<Rightarrow> process_items env d p rest keyword' videos' st'
               | (Some e, keyword', videos', st') \<Rightarrow> (Some e, keyword', videos', st'))
            else process_items env d p rest keyword videos1 st)
         else process_items env d p rest keyword videos1 st)"
| "keyword_loop env d p [] keyword videos st = (None, keyword, videos, st)"
| "keyword_loop env d p (k # ks) keyword videos st =
     (case search_videos_by_keyword env k (d + 1) p st of
        (Inl e, st') \<Rightarrow> (Some e, k, videos, st')
      | (Inr found, st') \<Rightarrow> keyword_loop env d p ks k (videos @ found) st')"
  by pat_completeness auto

termination
  apply (relation "inv_image (less_than <*lex*> less_than <*lex*> less_than)
     (\<lambda>x. case x of
        Inl (Inl (env, keyword, d, p, st)) \<Rightarrow> (2 * nat (max_depth p - d), 2::nat, 0::nat)
      | Inl (Inr (env, keyword, d, p, n, videos, st)) \<Rightarrow>
          (2 * nat (max_depth p - d), 1, nat (max_retries p) - n)
      | Inr (Inl (env, d, p, its, keyword, videos, st)) \<Rightarrow>
          (2 * nat (max_depth p - d), 0, length its)
      | Inr (Inr (env, d, p, ks, keyword, videos, st)) \<Rightarrow>
          (2 * nat (max_depth p - d - 1) + 1, 0, length ks))")
   apply auto
  done

declare search_videos_by_keyword.simps [simp del]

declare retry_loop.simps [simp del]

section \<open>load_config, validate_config and main (lines 14-76, 170-217)\<close>

text \<open>
  The content of \<^verbatim>\<open>config.json\<close> as \<^verbatim>\<open>json.load\<close> returns it. The four keys that
  \<^verbatim>\<open>load_config\<close> requires are present and hold values of their types;
  \<^verbatim>\<open>api_key\<close>, \<^verbatim>\<open>max_retries\<close> and \<^verbatim>\<open>default_timeout\<close> are read with
  \<^verbatim>\<open>config.get\<close> and may be absent (\<open>None\<close>). \<open>Unreadable e\<close> is a file that
  cannot be opened or parsed, \<open>e\<close> being what \<^verbatim>\<open>open\<close> or \<^verbatim>\<open>json.load\<close> raises.
\<close>

record config =
  cfg_api_key :: "string option"
  cfg_keywords :: "string list"
  cfg_max_results_per_keyword :: int
  cfg_requests_per_second :: pynum
  cfg_max_depth :: int
  cfg_max_retries :: "int option"
  cfg_default_timeout :: "pynum option"

datatype config_file = Unreadable pyerror | Json config

definition load_config :: "config_file \<Rightarrow> pyerror + config" where
  "load_config file =
     (case file of
        Unreadable e \<Rightarrow> Inl e
      | Json config \<Rightarrow>
          if cfg_api_key config = None \<or> cfg_api_key config = Some [] then Inl ValueError
          else Inr config)"

definition validate_config :: "config \<Rightarrow> pyerror + unit" where
  "validate_config config =
     (if cfg_api_key config = None \<or> cfg_api_key config = Some [] then Inl ValueError
      else if cfg_keywords config = [] then Inl ValueError
      else if cfg_max_results_per_keyword config < 1 then Inl ValueError
      else if num_value (cfg_requests_per_second config) < 0 then Inl ValueError
      else if cfg_max_depth config < 1 then Inl ValueError
      else if (case cfg_max_retries config of None \<Rightarrow> True | Some r \<Rightarrow> r < 1) then Inl ValueError
      else if (case cfg_default_timeout config of None \<Rightarrow> True | Some t \<Rightarrow> num_value t < 0)
        then Inl ValueError
      else Inr ())"

text \<open>The loop over the seed keywords (lines 194-209), \<open>secs\<close> being \<^verbatim>\<open>sleep_time\<close>.\<close>

fun main_loop ::
    "'w env \<Rightarrow> params \<Rightarrow> pyfloat \<Rightarrow> string list \<Rightarrow> video list \<Rightarrow> 'w state
       \<Rightarrow> (pyerror + video list) \<times> 'w state" where
  "main_loop env p secs [] all_videos st = (Inr all_videos, st)"
| "main_loop env p secs (keyword # keywords) all_videos st =
     (case search_videos_by_keyword env keyword 0 p st of
        (Inl e, st') \<Rightarrow> (Inl e, st')
      | (Inr videos, st') \<Rightarrow>
          (case time_sleep env secs st' of
             Inl e \<Rightarrow> (Inl e, st')
           | Inr st'' \<Rightarrow> main_loop env p secs keywords (all_videos @ videos) st''))"

text \<open>
  \<open>main\<close> on the content of the configuration file. \<open>Inr None\<close> is the return after
  \<^verbatim>\<open>Invalid configuration\<close> (line 179), \<open>Inr (Some all_videos)\<close> the end of the script,
  \<open>Inl e\<close> an exception that leaves \<open>main\<close>.
\<close>

definition main ::
    "'w env \<Rightarrow> config_file \<Rightarrow> 'w state \<Rightarrow> (pyerror + video list option) \<times> 'w state" where
  "main env file st =
     (case load_config file of
        Inl e \<Rightarrow> (Inl e, st)
      | Inr config \<Rightarrow>
          (case validate_config config of
             Inl ValueError \<Rightarrow> (Inr None, st)
           | Inl e \<Rightarrow> (Inl e, st)
           | Inr _ \<Rightarrow>
               (let p = \<lparr>max_results = cfg_max_results_per_keyword config,
                         max_depth = cfg_max_depth config,
                         api_key = cfg_api_key config,
                         max_retries = (case cfg_max_retries config of None \<Rightarrow> 5 | Some r \<Rightarrow> r),
                         default_timeout =
                           (case cfg_default_timeout config of None \<Rightarrow> PyInt 1 | Some t \<Rightarrow> t)\<rparr>
                in case one_over (cfg_requests_per_second config) of
                     Inl e \<Rightarrow> (Inl e, st)
                   | Inr secs \<Rightarrow>
                       (case main_loop env p secs (cfg_keywords config) [] st of
                          (Inl e, st') \<Rightarrow> (Inl e, st')
                        | (Inr all_videos, st') \<Rightarrow>
                            (Inr (Some all_videos), emit (Save all_videos) st')))))"

section \<open>Notions used in the statements\<close>

text \<open>
  The exceptions after which the handler sleeps and the loop goes on: an
  \<^verbatim>\<open>HttpError\<close> with status 403, 500 or 503 that is not the quota variant
  (lines 127 and 130).
\<close>

definition retryable :: "pyerror \<Rightarrow> bool" where
  "retryable e =
     (case e of
        HttpError status content \<Rightarrow>
          \<not> (status = 403 \<and> contains ''quotaExceeded'' content) \<and> status \<in> {403, 500, 503}
      | _ \<Rightarrow> False)"

text \<open>The sleeps and the queries of a trace, in order.\<close>

definition sleeps_of :: "event list \<Rightarrow> rat list" where
  "sleeps_of evs = concat (map (\<lambda>e. case e of Sleep s \<Rightarrow> [s] | _ \<Rightarrow> []) evs)"

definition queries_of :: "event list \<Rightarrow> (string \<times> int) list" where
  "queries_of evs = concat (map (\<lambda>e. case e of Query q m \<Rightarrow> [(q, m)] | _ \<Rightarrow> []) evs)"

text \<open>
  The result of a call in the words of the specification (3, second invariant): for
  each item of the query, in the order the API returned them, a block made of the item
  tagged with the depth and of the result sequences of the sub-calls for the item's
  keywords, in the order the keywords are iterated. \<open>sub_results\<close> runs the sub-calls
  of one item, each a call of \<open>search_videos_by_keyword\<close> at depth \<open>d + 1\<close> with
  the arguments \<open>p\<close> of the caller; \<open>item_blocks\<close> builds the blocks, with sub-calls
  below \<open>max_depth\<close> only; \<open>interleave\<close> flattens them: each item, then its sub-calls'
  results, then the next item.
\<close>

fun sub_results ::
    "'w env \<Rightarrow> int \<Rightarrow> params \<Rightarrow> string list \<Rightarrow> 'w state
       \<Rightarrow> pyerror option \<times> video list list \<times> 'w state" where
  "sub_results env d p [] st = (None, [], st)"
| "sub_results env d p (k # ks) st =
     (case search_videos_by_keyword env k (d + 1) p st of
        (Inl e, st') \<Rightarrow> (Some e, [], st')
      | (Inr found, st') \<Rightarrow>
          (case sub_results env d p ks st' of (exc, rs, st'') \<Rightarrow> (exc, found # rs, st'')))"

fun item_blocks ::
    "'w env \<Rightarrow> int \<Rightarrow> params \<Rightarrow> item list \<Rightarrow> 'w state
       \<Rightarrow> pyerror option \<times> (video \<times> video list list) list \<times> 'w state" where
  "item_blocks env d p [] st = (None, [], st)"
| "item_blocks env d p (search_result # rest) st =
     (let v = video_metadata_of d search_result;
          ks = (if d < max_depth p then extract_related_keywords env v else [])
      in case sub_results env d p ks st of
           (Some e, rs, st') \<Rightarrow> (Some e, [(v, rs)], st')
         | (None, rs, st') \<Rightarrow>
             (case item_blocks env d p rest st' of (exc, bs, st'') \<Rightarrow> (exc, (v, rs) # bs, st'')))"

definition interleave :: "(video \<times> video list list) list \<Rightarrow> video list" where
  "interleave blocks = concat (map (\<lambda>(v, rs). v # concat rs) blocks)"

text \<open>
  The retry loop in the words of the specification (4.2, steps 1 to 6): every attempt
  builds its own result, the interleaving of the blocks of the items that its query
  returned, and the call returns the result of the attempt that ends the loop; what an
  attempt collected before an exception is dropped when another attempt follows.
  An attempt whose query fails contributes nothing.
\<close>

function retry_loop_fresh ::
    "'w env \<Rightarrow> string \<Rightarrow> int \<Rightarrow> params \<Rightarrow> nat \<Rightarrow> 'w state \<Rightarrow> (pyerror + video list) \<times> 'w state"
where
  "retry_loop_fresh env keyword d p n st =
     (if int n < max_retries p then
        (case execute env (world st) keyword (max_results p) of (resp, w') \<Rightarrow>
           (let st1 = emit (Query keyword (max_results p)) (st\<lparr>world := w'\<rparr>) in
            case resp of
              Items search_results \<Rightarrow>
                (case item_blocks env d p search_results st1 of
                   (None, blocks, st2) \<Rightarrow> (Inr (interleave blocks), st2)
                 | (Some e, blocks, st2) \<Rightarrow>
                     (case handle_exception env p n e st2 of
                        Break st3 \<Rightarrow> (Inr (interleave blocks), st3)
                      | Continue st3 \<Rightarrow> retry_loop_fresh env keyword d p (Suc n) st3
                      | Escape e' st3 \<Rightarrow> (Inl e', st3)))
            | Failure e \<Rightarrow>
                (case handle_exception env p n e st1 of
                   Break st3 \<Rightarrow> (Inr [], st3)
                 | Continue st3 \<Rightarrow> retry_loop_fresh env keyword d p (Suc n) st3
                 | Escape e' st3 \<Rightarrow> (Inl e', st3))))
      else (Inr [], st))"
  by pat_completeness auto

termination
  by (relation "measure (\<lambda>(env, keyword, d, p, n, st). nat (max_retries p) - n)") auto

declare retry_loop_fresh.simps [simp del]

text \<open>
  The calls in a trace. \<open>invocations\<close> lists them. \<open>calls_ok p d c evs\<close> reads the
  events \<open>evs\<close> that follow a call of depth \<open>c\<close> inside a call of depth \<open>d\<close> with
  arguments \<open>p\<close>: every \<open>Invoke\<close> has the arguments \<open>p\<close>, a depth above \<open>d\<close> and
  up to \<open>max_depth\<close>, and at most one more than the depth of the call before it.
  \<open>top_calls d evs\<close> are the calls of \<open>evs\<close> at a depth up to \<open>d + 1\<close>: in the
  events of a call of depth \<open>d\<close>, where every other call is deeper than \<open>d\<close>, these
  are the calls at depth \<open>d + 1\<close>, and the deeper ones are made inside them.
  \<open>extends\<close> says that a state continues another one by events that are
  \<open>calls_ok\<close>, \<open>tagged\<close> that the depth tags of a result lie between \<open>d\<close> and the
  larger of \<open>d\<close> and \<open>max_depth\<close>.
\<close>

fun calls_ok :: "params \<Rightarrow> int \<Rightarrow> int \<Rightarrow> event list \<Rightarrow> bool" where
  "calls_ok p d c [] = True"
| "calls_ok p d c (Invoke k d' p' # evs) =
     (p' = p \<and> d < d' \<and> d' \<le> max_depth p \<and> d' \<le> c + 1 \<and> calls_ok p d d' evs)"
| "calls_ok p d c (e # evs) = calls_ok p d c evs"

definition invocations :: "event list \<Rightarrow> (string \<times> int \<times> params) list" where
  "invocations evs = concat (map (\<lambda>e. case e of Invoke k d p \<Rightarrow> [(k, d, p)] | _ \<Rightarrow> []) evs)"


definition extends :: "params \<Rightarrow> int \<Rightarrow> 'w state \<Rightarrow> 'w state \<Rightarrow> bool" where
  "extends p d st st' = (\<exists>evs. trace st' = trace st @ evs \<and> (\<forall>c\<ge>d. calls_ok p d c evs))"

definition tagged :: "params \<Rightarrow> int \<Rightarrow> video list \<Rightarrow> bool" where
  "tagged p d vs = (\<forall>v\<in>set vs. d \<le> depth v \<and> depth v \<le> max d (max_depth p))"

text \<open>
  A deterministic API: the query \<open>q\<close> with the cap \<open>m\<close> returns the items
  \<open>api q m\<close>, whatever the state of the world is.
\<close>

definition answers :: "'w env \<Rightarrow> (string \<Rightarrow> int \<Rightarrow> item list) \<Rightarrow> bool" where
  "answers env api = (\<forall>w q m. \<exists>w'. execute env w q m = (Items (api q m), w'))"

section \<open>Concrete environments and inputs\<close>

text \<open>
  The longest sleep of CPython on 64-bit Linux: the clock counts nanoseconds in 64
  bits, which is a little more than \<open>9.2 * 10 ^ 9\<close> seconds.
\<close>

definition linux_max_sleep :: rat where
  "linux_max_sleep = 9223372036854775807 / 1000000000"

text \<open>
  A world without state. \<open>quiet_env\<close>: every query returns no item and every random
  draw is the largest one.
\<close>

definition quiet_env :: "unit env" where
  "quiet_env =
     \<lparr>execute = (\<lambda>w q m. (Items [], w)), draw = (\<lambda>w. (1000, w)), set_order = (\<lambda>xs. xs),
      max_sleep = linux_max_sleep\<rparr>"

definition unit_params :: params where
  "unit_params =
     \<lparr>max_results = 10, max_depth = 1, api_key = Some ''k'', max_retries = 2,
      default_timeout = PyInt 1\<rparr>"

definition start :: "unit state" where
  "start = \<lparr>world = (), trace = []\<rparr>"

text \<open>The valid configuration of \<^verbatim>\<open>tests.py\<close>, with \<^verbatim>\<open>requests_per_second\<close> set to 0.\<close>

definition zero_rate_config :: config where
  "zero_rate_config =
     \<lparr>cfg_api_key = Some ''valid_key'', cfg_keywords = [''keyword1'', ''keyword2''],
      cfg_max_results_per_keyword = 10, cfg_requests_per_second = PyInt 0, cfg_max_depth = 3,
      cfg_max_retries = Some 5, cfg_default_timeout = Some (PyFloat (3 / 2))\<rparr>"

text \<open>
  \<open>busy_env\<close>: every query fails with status 503. \<open>quota_env\<close>: every query fails
  with the quota variant of status 403.
\<close>

definition busy_env :: "unit env" where
  "busy_env =
     \<lparr>execute = (\<lambda>w q m. (Failure (HttpError 503 ''backendError''), w)),
      draw = (\<lambda>w. (250, w)), set_order = (\<lambda>xs. xs), max_sleep = linux_max_sleep\<rparr>"

definition quota_env :: "unit env" where
  "quota_env =
     \<lparr>execute = (\<lambda>w q m. (Failure (HttpError 403 ''reason: quotaExceeded''), w)),
      draw = (\<lambda>w. (250, w)), set_order = (\<lambda>xs. xs), max_sleep = linux_max_sleep\<rparr>"

text \<open>
  \<open>cats_env\<close>: the query \<^verbatim>\<open>cats\<close> returns one video with a description, the query
  \<^verbatim>\<open>kittens\<close> one video without, and every other query fails with status 404.
  \<open>cats_trace\<close> is what the search for \<^verbatim>\<open>cats\<close> does there with \<open>unit_params\<close>.
\<close>

definition cat_item :: item where
  "cat_item = \<lparr>snippet_title = ''Cat'', id_videoId = ''abc'', snippet_channelTitle = ''Pets'',
     snippet_description = Some ''Kittens''\<rparr>"

definition kitten_item :: item where
  "kitten_item = \<lparr>snippet_title = ''Kitten'', id_videoId = ''xyz'', snippet_channelTitle = ''Pets'',
     snippet_description = None\<rparr>"

definition cats_env :: "unit env" where
  "cats_env =
     \<lparr>execute = (\<lambda>w q m. (if q = ''cats'' then Items [cat_item]
                           else if q = ''kittens'' then Items [kitten_item]
                           else Failure (HttpError 404 ''notFound''), w)),
      draw = (\<lambda>w. (250, w)), set_order = (\<lambda>xs. xs), max_sleep = linux_max_sleep\<rparr>"

definition cats_trace :: "event list" where
  "cats_trace =
     [Invoke ''cats'' 0 unit_params, Query ''cats'' 10,
      Invoke ''cat'' 1 unit_params, Query ''cat'' 10,
      Invoke ''kittens'' 1 unit_params, Query ''kittens'' 10]"

definition cat_video :: video where
  "cat_video = \<lparr>title = ''Cat'', url = ''https://www.youtube.com/watch?v=abc'', channel = ''Pets'',
     description = ''Kittens'', depth = 0\<rparr>"

definition kitten_video :: video where
  "kitten_video = \<lparr>title = ''Kitten'', url = ''https://www.youtube.com/watch?v=xyz'', channel = ''Pets'',
     description = [], depth = 1\<rparr>"

text \<open>What the search for \<^verbatim>\<open>cats\<close> does in \<open>busy_env\<close> with \<open>unit_params\<close>.\<close>

definition busy_trace :: "event list" where
  "busy_trace =
     [Invoke ''cats'' 0 unit_params, Query ''cats'' 10, Sleep (5 / 4),
      Query ''cats'' 10, Sleep (9 / 4)]"

text \<open>
  The valid configuration of \<^verbatim>\<open>tests.py\<close> with \<^verbatim>\<open>default_timeout\<close> set to
  \<open>10 ^ 10\<close> seconds, and the arguments that \<open>main\<close> passes to the search with it.
\<close>

definition huge_config :: config where
  "huge_config =
     \<lparr>cfg_api_key = Some ''valid_key'', cfg_keywords = [''keyword1'', ''keyword2''],
      cfg_max_results_per_keyword = 10, cfg_requests_per_second = PyInt 2, cfg_max_depth = 3,
      cfg_max_retries = Some 5, cfg_default_timeout = Some (PyInt 10000000000)\<rparr>"

definition huge_params :: params where
  "huge_params =
     \<lparr>max_results = 10, max_depth = 3, api_key = Some ''valid_key'', max_retries = 5,
      default_timeout = PyInt 10000000000\<rparr>"

text \<open>
  Two environments that answer alike (\<open>cat_api\<close>) over different worlds: \<open>mock_env\<close>
  has no state, \<open>counting_env\<close> counts the queries and draws other random numbers.
\<close>

definition cat_api :: "string \<Rightarrow> int \<Rightarrow> item list" where
  "cat_api q m = (if q = ''cats'' then [cat_item] else [])"

definition mock_env :: "unit env" where
  "mock_env =
     \<lparr>execute = (\<lambda>w q m. (Items (cat_api q m), w)), draw = (\<lambda>w. (0, w)),
      set_order = (\<lambda>xs. xs), max_sleep = linux_max_sleep\<rparr>"

definition counting_env :: "nat env" where
  "counting_env =
     \<lparr>execute = (\<lambda>w q m. (Items (cat_api q m), Suc w)), draw = (\<lambda>w. (w, 3 * w + 1)),
      set_order = (\<lambda>xs. xs), max_sleep = linux_max_sleep\<rparr>"

text \<open>
  \<open>flaky_env\<close>: the world counts the queries; the first query fails with status 503,
  the queries after it answer as \<open>cat_api\<close>. \<open>flaky_trace\<close> is what the search for
  \<^verbatim>\<open>cats\<close> does there with \<open>unit_params\<close>, from the world 0.
\<close>

definition flaky_env :: "nat env" where
  "flaky_env =
     \<lparr>execute = (\<lambda>w q m. (if w = 0 then Failure (HttpError 503 ''backendError'')
                           else Items (cat_api q m), Suc w)),
      draw = (\<lambda>w. (250, w)), set_order = (\<lambda>xs. xs), max_sleep = linux_max_sleep\<rparr>"

definition flaky_trace :: "event list" where
  "flaky_trace =
     [Invoke ''cats'' 0 unit_params, Query ''cats'' 10, Sleep (5 / 4), Query ''cats'' 10,
      Invoke ''cat'' 1 unit_params, Query ''cat'' 10,
      Invoke ''kittens'' 1 unit_params, Query ''kittens'' 10]"

text \<open>
  \<open>pets_env ord\<close>: an API that always returns the same items for the same query
  (\<open>pets_api\<close>), in an interpreter that enumerates a set in the order \<open>ord\<close> of its
  distinct elements. \<open>single_try\<close> has \<open>max_retries = 1\<close>.
\<close>

definition tom_item :: item where
  "tom_item = \<lparr>snippet_title = ''Tom'', id_videoId = ''tom'', snippet_channelTitle = ''Pets'',
     snippet_description = None\<rparr>"

definition tom_video :: video where
  "tom_video = \<lparr>title = ''Tom'', url = ''https://www.youtube.com/watch?v=tom'', channel = ''Pets'',
     description = [], depth = 1\<rparr>"

definition pets_api :: "string \<Rightarrow> int \<Rightarrow> item list" where
  "pets_api q m =
     (if q = ''cats'' then [cat_item] else if q = ''cat'' then [tom_item]
      else if q = ''kittens'' then [kitten_item] else [])"

definition pets_env :: "(string list \<Rightarrow> string list) \<Rightarrow> unit env" where
  "pets_env ord =
     \<lparr>execute = (\<lambda>w q m. (Items (pets_api q m), w)), draw = (\<lambda>w. (0, w)), set_order = ord,
      max_sleep = linux_max_sleep\<rparr>"

definition single_try :: params where
  "single_try =
     \<lparr>max_results = 10, max_depth = 1, api_key = Some ''k'', max_retries = 1,
      default_timeout = PyInt 1\<rparr>"

section \<open>Auxiliary facts\<close>

subsection \<open>Rounding to a double is monotone and leaves a double as it is\<close>

lemma pow2_nat: "0 \<le> e \<Longrightarrow> (2::rat) powi e = 2 ^ nat e"
  by (simp add: power_int_def)

lemma floor_log2_bounds:
  assumes "0 < q"
  shows "2 powi (floor_log2 q) \<le> q" and "q < 2 powi (floor_log2 q + 1)"
proof -
  obtain a b where ab: "quotient_of q = (a, b)" by (cases "quotient_of q")
  then have b: "0 < b" and q: "q = of_int a / of_int b"
    using quotient_of_denom_pos quotient_of_div by auto
  with assms have a: "0 < a"
    by (simp add: zero_less_divide_iff)
  let ?e = "bitlen a - bitlen b"
  from bitlen_bounds [OF a] have a1: "2 ^ nat (bitlen a - 1) \<le> a" and a2: "a < 2 ^ nat (bitlen a)" by auto
  from bitlen_bounds [OF b] have b1: "2 ^ nat (bitlen b - 1) \<le> b" and b2: "b < 2 ^ nat (bitlen b)" by auto
  have la: "1 \<le> bitlen a" using a by (auto simp: bitlen_alt_def)
  have lb: "1 \<le> bitlen b" using b by (auto simp: bitlen_alt_def)
  have A1: "(2::rat) powi (bitlen a - 1) \<le> of_int a"
    using a1 la by (simp add: pow2_nat)
  have A2: "of_int a < (2::rat) powi (bitlen a)"
    using a2 la by (simp add: pow2_nat)
  have B1: "(2::rat) powi (bitlen b - 1) \<le> of_int b"
    using b1 lb by (simp add: pow2_nat)
  have B2: "of_int b < (2::rat) powi (bitlen b)"
    using b2 lb by (simp add: pow2_nat)
  have bp: "(0::rat) < of_int b" using b by simp
  have lo: "2 powi (?e - 1) \<le> q"
  proof -
    have "2 powi (?e - 1) * rat_of_int b \<le> 2 powi (?e - 1) * 2 powi (bitlen b)"
      using B2 by (intro mult_left_mono) auto
    also have "\<dots> = 2 powi (bitlen a - 1)"
      by (simp flip: power_int_add)
    also have "\<dots> \<le> of_int a" by (rule A1)
    finally show ?thesis using bp by (simp add: q pos_le_divide_eq)
  qed
  have hi: "q < 2 powi (?e + 1)"
  proof -
    have "of_int a < (2::rat) powi (bitlen a)" by (rule A2)
    also have "\<dots> = 2 powi (?e + 1) * 2 powi (bitlen b - 1)"
      by (simp flip: power_int_add)
    also have "\<dots> \<le> 2 powi (?e + 1) * of_int b"
      using B1 by (intro mult_left_mono) auto
    finally show ?thesis using bp by (simp add: q pos_divide_less_eq)
  qed
  show "2 powi (floor_log2 q) \<le> q"
    using lo by (simp add: floor_log2_def ab Let_def)
  show "q < 2 powi (floor_log2 q + 1)"
    using hi by (auto simp add: floor_log2_def ab Let_def not_le)
qed

lemma pow2_mono: "e \<le> e' \<Longrightarrow> (2::rat) powi e \<le> 2 powi e'"
  by (rule power_int_increasing) auto

lemma pow2_less: "(2::rat) powi e < 2 powi e' \<Longrightarrow> e < e'"
  using pow2_mono [of e' e] by (cases "e < e'") auto

lemma floor_log2_mono:
  assumes "0 < q" "q \<le> q'"
  shows "floor_log2 q \<le> floor_log2 q'"
proof -
  from assms have q': "0 < q'" by simp
  from floor_log2_bounds(1) [OF assms(1)] floor_log2_bounds(2) [OF q'] assms(2)
  have "(2::rat) powi (floor_log2 q) < 2 powi (floor_log2 q' + 1)" by linarith
  then show ?thesis by (auto dest: pow2_less)
qed

lemma round_half_even_int [simp]: "round_half_even (of_int k) = k"
  by (simp add: round_half_even_def)

lemma round_half_even_numeral [simp]: "round_half_even (numeral n) = numeral n"
  by (metis round_half_even_int of_int_numeral)

lemma round_half_even_mono:
  assumes "m \<le> m'"
  shows "round_half_even m \<le> round_half_even m'"
proof -
  have f: "\<lfloor>m\<rfloor> \<le> \<lfloor>m'\<rfloor>" using assms by (rule floor_mono)
  show ?thesis
  proof (cases "\<lfloor>m\<rfloor> = \<lfloor>m'\<rfloor>")
    case True
    with assms show ?thesis by (auto simp: round_half_even_def Let_def)
  next
    case False
    with f have "\<lfloor>m\<rfloor> + 1 \<le> \<lfloor>m'\<rfloor>" by simp
    moreover have "round_half_even m \<le> \<lfloor>m\<rfloor> + 1" by (simp add: round_half_even_def Let_def)
    moreover have "\<lfloor>m'\<rfloor> \<le> round_half_even m'" by (simp add: round_half_even_def Let_def)
    ultimately show ?thesis by linarith
  qed
qed

lemma ulp_pos [simp]: "0 < ulp q"
  by (simp add: ulp_def)

lemma round_pos_le:
  assumes "0 < q" "q \<le> of_int k * ulp q"
  shows "round_pos q \<le> of_int k * ulp q"
proof -
  from assms have "q / ulp q \<le> of_int k" by (simp add: pos_divide_le_eq)
  from round_half_even_mono [OF this] have "round_half_even (q / ulp q) \<le> k" by simp
  then have "rat_of_int (round_half_even (q / ulp q)) \<le> of_int k" by simp
  then show ?thesis using assms(1) by (simp add: round_pos_def)
qed

lemma round_pos_ge:
  assumes "0 < q" "of_int k * ulp q \<le> q"
  shows "of_int k * ulp q \<le> round_pos q"
proof -
  from assms have "of_int k \<le> q / ulp q" by (simp add: pos_le_divide_eq)
  from round_half_even_mono [OF this] have "k \<le> round_half_even (q / ulp q)" by simp
  then have "rat_of_int k \<le> of_int (round_half_even (q / ulp q))" by simp
  then show ?thesis using assms(1) by (simp add: round_pos_def)
qed

lemma pow2_multiple:
  assumes "max (floor_log2 q - 52) (- 1074) \<le> e"
  shows "\<exists>k. (2::rat) powi e = of_int k * ulp q"
proof -
  let ?k = "max (floor_log2 q - 52) (- 1074)"
  have "(2::rat) powi e = 2 powi (e - ?k) * 2 powi ?k"
    by (simp flip: power_int_add)
  also have "(2::rat) powi (e - ?k) = of_int (2 ^ nat (e - ?k))"
    using assms by (simp add: pow2_nat)
  finally show ?thesis unfolding ulp_def by blast
qed

lemma round_pos_nonneg: "0 \<le> q \<Longrightarrow> 0 \<le> round_pos q"
proof -
  assume q: "0 \<le> q"
  show ?thesis
  proof (cases "q = 0")
    case True then show ?thesis by (simp add: round_pos_def)
  next
    case False
    with q have "0 < q" by simp
    from round_pos_ge [OF this, of 0] q show ?thesis by simp
  qed
qed

lemma round_pos_mono:
  assumes "0 \<le> q" "q \<le> q'"
  shows "round_pos q \<le> round_pos q'"
proof (cases "q = 0")
  case True
  with assms round_pos_nonneg [of q'] show ?thesis by (simp add: round_pos_def)
next
  case False
  with assms have q: "0 < q" and q': "0 < q'" by auto
  let ?e = "floor_log2 q" and ?e' = "floor_log2 q'"
  let ?k = "max (?e - 52) (- 1074)" and ?k' = "max (?e' - 52) (- 1074)"
  have ee: "?e \<le> ?e'" using q assms(2) by (rule floor_log2_mono)
  show ?thesis
  proof (cases "?k = ?k'")
    case True
    then have u: "ulp q = ulp q'" by (simp add: ulp_def)
    have "q / ulp q \<le> q' / ulp q"
      by (rule divide_right_mono) (use assms(2) ulp_pos [of q] in \<open>simp_all add: less_imp_le\<close>)
    from round_half_even_mono [OF this]
    have "rat_of_int (round_half_even (q / ulp q)) \<le> of_int (round_half_even (q' / ulp q))" by simp
    then show ?thesis using q q' u by (simp add: round_pos_def)
  next
    case False
    with ee have lt: "?e < ?e'" and k': "?k' = ?e' - 52" by auto
    have "?k \<le> ?e'" using lt k' by (simp add: max_def split: if_splits)
    from pow2_multiple [OF this] obtain k where k: "(2::rat) powi ?e' = of_int k * ulp q"
      by blast
    have "q < 2 powi (?e + 1)" using q by (rule floor_log2_bounds)
    also have "\<dots> \<le> 2 powi ?e'" using lt by (intro pow2_mono) simp
    finally have "q \<le> of_int k * ulp q" using k by simp
    from round_pos_le [OF q this] k have 1: "round_pos q \<le> 2 powi ?e'" by simp
    have "?k' \<le> ?e'" using k' by simp
    from pow2_multiple [OF this] obtain k2 where k2: "(2::rat) powi ?e' = of_int k2 * ulp q'"
      by blast
    have "2 powi ?e' \<le> q'" using q' by (rule floor_log2_bounds)
    with k2 have "of_int k2 * ulp q' \<le> q'" by simp
    from round_pos_ge [OF q' this] k2 have 2: "2 powi ?e' \<le> round_pos q'" by simp
    from 1 2 show ?thesis by simp
  qed
qed

lemma round_double_mono:
  assumes "q \<le> q'"
  shows "round_double q \<le> round_double q'"
proof -
  consider "q' < 0" | "q < 0" "0 \<le> q'" | "0 \<le> q" using assms by linarith
  then show ?thesis
  proof cases
    case 1
    with assms round_pos_mono [of "- q'" "- q"] show ?thesis by (simp add: round_double_def)
  next
    case 2
    with round_pos_nonneg [of "- q"] round_pos_nonneg [of q'] show ?thesis
      by (simp add: round_double_def)
  next
    case 3
    with assms round_pos_mono [of q q'] show ?thesis by (simp add: round_double_def)
  qed
qed


lemma round_pos_multiple:
  assumes "0 < q" "q = of_int z * ulp q"
  shows "round_pos q = q"
proof -
  define u where "u = ulp q"
  have "0 < u" by (simp add: u_def)
  moreover have "q = of_int z * u" using assms(2) by (simp only: u_def)
  ultimately have "q / u = of_int z" by simp
  then have e: "q / ulp q = of_int z" by (simp only: u_def)
  have "round_pos q = of_int (round_half_even (q / ulp q)) * ulp q"
    using assms(1) by (simp add: round_pos_def)
  also have "\<dots> = of_int z * ulp q" by (simp only: e round_half_even_int)
  also have "\<dots> = q" by (rule assms(2) [symmetric])
  finally show ?thesis .
qed

lemma round_pos_representable:
  assumes "0 < m" "m < 2 ^ 53" "- 1074 \<le> j"
  shows "round_pos (of_int m * 2 powi j) = of_int m * 2 powi j"
proof -
  let ?v = "rat_of_int m * 2 powi j"
  have v: "0 < ?v" using assms(1) by simp
  have "rat_of_int m < 2 ^ 53" using assms(2) by (metis of_int_less_iff of_int_numeral of_int_power)
  then have "?v < 2 ^ 53 * 2 powi j" by simp
  also have "\<dots> = 2 powi (j + 53)" by (simp add: power_int_add)
  finally have "2 powi floor_log2 ?v < (2::rat) powi (j + 53)"
    using floor_log2_bounds(1) [OF v] by linarith
  then have "floor_log2 ?v < j + 53" by (rule pow2_less)
  with assms(3) have k: "max (floor_log2 ?v - 52) (- 1074) \<le> j" by simp
  let ?k = "max (floor_log2 ?v - 52) (- 1074)"
  have "(2::rat) powi j = 2 powi (j - ?k) * 2 powi ?k" by (simp flip: power_int_add)
  also have "(2::rat) powi (j - ?k) = of_int (2 ^ nat (j - ?k))" using k by (simp add: pow2_nat)
  finally have "?v = of_int (m * 2 ^ nat (j - ?k)) * ulp ?v"
    by (simp add: ulp_def)
  with v show ?thesis by (rule round_pos_multiple)
qed

lemma round_pos_idem: "0 \<le> q \<Longrightarrow> round_pos (round_pos q) = round_pos q"
proof -
  assume q0: "0 \<le> q"
  show ?thesis
  proof (cases "round_pos q = 0")
    case True
    then show ?thesis by (simp add: round_pos_def)
  next
    case False
    then have qn: "q \<noteq> 0" by (auto simp: round_pos_def)
    with q0 have q: "0 < q" by simp
    let ?k = "max (floor_log2 q - 52) (- 1074)"
    let ?K = "round_half_even (q / ulp q)"
    have rp: "round_pos q = of_int ?K * 2 powi ?k" using qn by (simp add: round_pos_def ulp_def)
    from round_pos_nonneg [OF q0] False have "0 < round_pos q" by simp
    with rp have "0 < rat_of_int ?K * 2 powi ?k" by simp
    moreover have "(0::rat) < 2 powi ?k" by simp
    ultimately have "0 < rat_of_int ?K" by (rule zero_less_mult_pos2)
    then have Kpos: "0 < ?K" by simp
    have "q < 2 powi (floor_log2 q + 1)" using q by (rule floor_log2_bounds)
    also have "\<dots> \<le> 2 powi (?k + 53)" by (intro pow2_mono) simp
    also have "\<dots> = of_int (2 ^ 53) * ulp q" by (simp add: power_int_add ulp_def)
    finally have "q / ulp q \<le> of_int (2 ^ 53)" by (simp add: pos_divide_le_eq)
    from round_half_even_mono [OF this] have Kle: "?K \<le> 2 ^ 53" by simp
    show ?thesis
    proof (cases "?K = 2 ^ 53")
      case False
      with Kle have "?K < 2 ^ 53" by simp
      from round_pos_representable [OF Kpos this, of ?k] rp show ?thesis by simp
    next
      case True
      have "rat_of_int ?K * 2 powi ?k = of_int (2 ^ 52) * 2 powi (?k + 1)"
        by (simp add: True power_int_add)
      with rp round_pos_representable [of "2 ^ 52" "?k + 1"] show ?thesis by simp
    qed
  qed
qed

lemma round_double_idem: "round_double (round_double q) = round_double q"
proof (cases "q < 0")
  case True
  then have "0 \<le> - q" by simp
  from round_pos_idem [OF this] round_pos_nonneg [OF this]
  have i: "round_pos (round_pos (- q)) = round_pos (- q)" and n: "0 \<le> round_pos (- q)" .
  show ?thesis
  proof (cases "round_pos (- q) = 0")
    case z: True
    have "round_pos 0 = 0" by (simp add: round_pos_def)
    with True z show ?thesis by (simp add: round_double_def)
  next
    case False
    with n have "- round_pos (- q) < 0" by simp
    with True i show ?thesis by (simp add: round_double_def)
  qed
next
  case False
  then have "0 \<le> q" by simp
  from round_pos_idem [OF this] round_pos_nonneg [OF this] False show ?thesis
    by (simp add: round_double_def not_less [symmetric])
qed

lemma round_double_power: "round_double (2 ^ n) = 2 ^ n"
  using round_pos_representable [of 1 "int n"] by (simp add: round_double_def)

lemma round_double_0 [simp]: "round_double 0 = 0"
  by (simp add: round_double_def round_pos_def)

lemma round_double_1 [simp]: "round_double 1 = 1"
  using round_double_power [of 0] by simp

lemma round_double_quarters:
  "round_double (1 / 4) = 1 / 4" "round_double (5 / 4) = 5 / 4" "round_double (9 / 4) = 9 / 4"
  "round_double (1 / 2) = 1 / 2" "round_double 2 = 2"
  "round_double 10000000000 = 10000000000"
  "round_double (40000000001 / 4) = 40000000001 / 4"
  by code_simp+

lemma int_divide_bounds: "r \<le> 1000 \<Longrightarrow> 0 \<le> int_divide r 1000 \<and> int_divide r 1000 \<le> 1"
proof -
  assume "r \<le> 1000"
  then have "rat_of_nat r \<le> 1000" by simp
  then have "0 \<le> rat_of_nat r / rat_of_nat 1000" "rat_of_nat r / rat_of_nat 1000 \<le> 1" by simp_all
  from round_double_mono [OF this(1)] round_double_mono [OF this(2)]
  show ?thesis by (simp add: int_divide_def)
qed

subsection \<open>The library functions and the handler\<close>

lemma set_list_of_set: "set (list_of_set ord xs) = set xs"
  by (simp add: list_of_set_def Let_def)

lemma distinct_list_of_set: "distinct (list_of_set ord xs)"
  by (simp add: list_of_set_def Let_def)

lemma randint_le: "randint env 0 1000 st = (r, st1) \<Longrightarrow> r \<le> 1000"
  by (auto simp: randint_def split: prod.splits)

lemma world_emit [simp]: "world (emit e st) = world st"
  by (simp add: emit_def)

lemma trace_emit [simp]: "trace (emit e st) = trace st @ [e]"
  by (simp add: emit_def)

lemma trace_randint: "randint env a b st = (r, st2) \<Longrightarrow> trace st2 = trace st"
  by (auto simp: randint_def split: prod.splits)

lemma time_sleep_Inr:
  "time_sleep env secs st = Inr st' \<Longrightarrow>
   \<exists>s. secs = Finite s \<and> 0 \<le> s \<and> s \<le> max_sleep env \<and> st' = emit (Sleep s) st"
  by (cases secs) (auto simp: time_sleep_def split: if_splits)

lemma time_sleep_Inl: "time_sleep env secs st = Inl e \<Longrightarrow> e = ValueError \<or> e = OverflowError"
  by (cases secs) (auto simp: time_sleep_def split: if_splits)

lemma int_to_float_Inl: "int_to_float i = Inl e \<Longrightarrow> e = OverflowError"
  by (auto simp: int_to_float_def split: if_splits)

lemma times_power_Inl: "times_power x n = Inl e \<Longrightarrow> e = OverflowError"
  by (cases x) (auto simp: times_power_def split: sum.splits dest: int_to_float_Inl)

lemma plus_float_Inl: "plus_float x y = Inl e \<Longrightarrow> e = OverflowError"
  by (auto simp: plus_float_def split: pyvalue.splits pyfloat.splits sum.splits
      dest: int_to_float_Inl)

lemma backoff_not_Break [simp]: "backoff env p n st \<noteq> Break st'"
  by (simp add: backoff_def split: sum.splits prod.splits)

lemma backoff_Escape:
  assumes "backoff env p n st = Escape e st'"
  shows "(e = ValueError \<or> e = OverflowError) \<and> trace st' = trace st"
proof (cases "times_power (default_timeout p) n")
  case (Inl e1)
  with assms times_power_Inl [OF Inl] show ?thesis by (simp add: backoff_def)
next
  case (Inr x)
  obtain r st1 where r: "randint env 0 1000 st = (r, st1)" by (cases "randint env 0 1000 st")
  from trace_randint [OF r] have t: "trace st1 = trace st" .
  show ?thesis
  proof (cases "plus_float x (int_divide r 1000)")
    case (Inl e1)
    with assms Inr r t plus_float_Inl [OF Inl] show ?thesis by (simp add: backoff_def)
  next
    case secs: (Inr secs)
    show ?thesis
    proof (cases "time_sleep env secs st1")
      case (Inl e1)
      with assms Inr r t secs time_sleep_Inl [OF Inl] show ?thesis by (simp add: backoff_def)
    next
      case (Inr st2)
      with assms \<open>times_power (default_timeout p) n = Inr x\<close> r secs show ?thesis
        by (simp add: backoff_def)
    qed
  qed
qed


lemma handle_exception_Escape:
  "handle_exception env p n e st = Escape e' st' \<Longrightarrow> e' = ValueError \<or> e' = OverflowError"
  by (cases e) (auto split: if_splits dest: backoff_Escape)

lemma handle_exception_raised:
  "e = ValueError \<or> e = OverflowError \<Longrightarrow> handle_exception env p n e st = Break st"
  by auto

subsection \<open>The loops\<close>

lemma retry_loop_Failure:
  "int n < max_retries p \<Longrightarrow> execute env (world st) keyword (max_results p) = (Failure e, w') \<Longrightarrow>
   retry_loop env keyword d p n videos st =
     (case handle_exception env p n e (emit (Query keyword (max_results p)) (st\<lparr>world := w'\<rparr>)) of
        Break st3 \<Rightarrow> (Inr videos, st3)
      | Continue st3 \<Rightarrow> retry_loop env keyword d p (Suc n) videos st3
      | Escape e' st3 \<Rightarrow> (Inl e', st3))"
  by (simp add: retry_loop.simps [of env keyword d p n videos st])

lemma retry_loop_done:
  "\<not> int n < max_retries p \<Longrightarrow> retry_loop env keyword d p n videos st = (Inr videos, st)"
  by (simp add: retry_loop.simps [of env keyword d p n videos st])

lemma search_unfold:
  "api_key p = Some key \<Longrightarrow> key \<noteq> [] \<Longrightarrow>
   search_videos_by_keyword env keyword d p st =
     retry_loop env keyword d p 0 [] (emit (Invoke keyword d p) st)"
  by (simp add: search_videos_by_keyword.simps)

lemma raised_in_handler:
  fixes env :: "'w env"
  shows "search_videos_by_keyword env keyword d p st = (Inl e, st') \<Longrightarrow> e = ValueError \<or> e = OverflowError"
    and "retry_loop env keyword d p n videos st = (Inl e, st') \<Longrightarrow> e = ValueError \<or> e = OverflowError"
    and "process_items env d p search_results keyword videos st = (Some e, k', vs', st') \<Longrightarrow> e = ValueError \<or> e = OverflowError"
    and "keyword_loop env d p ks keyword videos st = (Some e, k', vs', st') \<Longrightarrow> e = ValueError \<or> e = OverflowError"
proof (induction env keyword d p st and env keyword d p n videos st
         and env d p search_results keyword videos st and env d p ks keyword videos st
         arbitrary: e st' and e st' and e k' vs' st' and e k' vs' st'
         rule: search_videos_by_keyword_retry_loop_process_items_keyword_loop.induct)
  case (1 env keyword d p st)
  then show ?case
    by (auto simp: search_videos_by_keyword.simps Let_def split: if_splits)
next
  case (2 env keyword d p n videos st)
  from "2.prems" show ?case
    unfolding retry_loop.simps [of env keyword d p n videos st]
    by (auto simp: Let_def split: if_splits prod.splits response.splits option.splits handled.splits
        dest: handle_exception_Escape "2.IH"(2,3))
next
  case (3 env d p keyword videos st)
  then show ?case by simp
next
  case (4 env d p search_result rest keyword videos st)
  then show ?case
    by (auto simp: Let_def split: if_splits prod.splits option.splits)
next
  case (5 env d p keyword videos st)
  then show ?case by simp
next
  case (6 env d p k ks keyword videos st)
  then show ?case
    by (auto simp: Let_def split: if_splits prod.splits sum.splits)
qed

lemma keyword_loop_sub_results:
  "(case keyword_loop env d p ks keyword videos st of (exc, k', vs, st') \<Rightarrow> (exc, vs, st')) =
   (case sub_results env d p ks st of (exc, rs, st') \<Rightarrow> (exc, videos @ concat rs, st'))"
proof (induction ks arbitrary: keyword videos st)
  case Nil
  show ?case by simp
next
  case (Cons k ks)
  show ?case
  proof (cases "search_videos_by_keyword env k (d + 1) p st")
    case (Pair r st1)
    show ?thesis
    proof (cases r)
      case (Inl e)
      with Pair show ?thesis by simp
    next
      case (Inr found)
      with Pair Cons [of k "videos @ found" st1]
      show ?thesis by (simp split: prod.splits)
    qed
  qed
qed

lemma process_items_item_blocks:
  "(case process_items env d p its keyword videos st of (exc, k', vs, st') \<Rightarrow> (exc, vs, st')) =
   (case item_blocks env d p its st of (exc, bs, st') \<Rightarrow> (exc, videos @ interleave bs, st'))"
proof (induction its arbitrary: keyword videos st)
  case Nil
  show ?case by (simp add: interleave_def)
next
  case (Cons it its)
  let ?v = "video_metadata_of d it"
  let ?ks = "extract_related_keywords env ?v"
  show ?case
  proof (cases "d < max_depth p \<and> ?ks \<noteq> []")
    case False
    with Cons [of keyword "videos @ [?v]" st]
    show ?thesis by (auto simp: Let_def interleave_def split: prod.splits)
  next
    case True
    obtain exc k1 found st1 where kl: "keyword_loop env d p ?ks keyword (videos @ [?v]) st = (exc, k1, found, st1)"
      by (cases "keyword_loop env d p ?ks keyword (videos @ [?v]) st") auto
    obtain rs where sr: "sub_results env d p ?ks st = (exc, rs, st1)" and f: "found = (videos @ [?v]) @ concat rs"
      using keyword_loop_sub_results [of env d p ?ks keyword "videos @ [?v]" st] kl
      by (auto split: prod.splits)
    show ?thesis
    proof (cases exc)
      case None
      with True kl sr f Cons [of k1 found st1]
      show ?thesis by (auto simp: Let_def interleave_def split: prod.splits)
    next
      case (Some e)
      with True kl sr f show ?thesis by (simp add: Let_def interleave_def)
    qed
  qed
qed

lemma sub_results_length:
  "sub_results env d p ks st = (None, rs, st') \<Longrightarrow> length rs = length ks"
  by (induction ks arbitrary: rs st) (auto split: prod.splits sum.splits)

lemma item_blocks_fst:
  "item_blocks env d p its st = (None, bs, st') \<Longrightarrow> map fst bs = map (video_metadata_of d) its"
proof (induction its arbitrary: bs st)
  case Nil
  then show ?case by simp
next
  case (Cons it its)
  then show ?case
    by (fastforce simp: Let_def split: prod.splits option.splits if_splits)
qed

lemma item_blocks_snd:
  "item_blocks env d p its st = (None, bs, st') \<Longrightarrow> b \<in> set bs \<Longrightarrow>
   length (snd b) = (if d < max_depth p then length (extract_related_keywords env (fst b)) else 0)"
proof (induction its arbitrary: bs st)
  case Nil
  then show ?case by simp
next
  case (Cons it its)
  let ?v = "video_metadata_of d it"
  let ?ks = "if d < max_depth p then extract_related_keywords env ?v else []"
  from Cons.prems(1) obtain rs st1 bs' where
    sr: "sub_results env d p ?ks st = (None, rs, st1)"
    and ib: "item_blocks env d p its st1 = (None, bs', st')"
    and bs: "bs = (?v, rs) # bs'"
    by (auto simp: Let_def split: prod.splits option.splits)
  from sub_results_length [OF sr] have len: "length rs = length ?ks" .
  from Cons.prems(2) bs consider "b = (?v, rs)" | "b \<in> set bs'" by auto
  then show ?case
  proof cases
    case 1
    with len show ?thesis by simp
  next
    case 2
    with Cons.IH [OF ib] show ?thesis by simp
  qed
qed

lemma item_blocks_shape:
  assumes "item_blocks env d p its st = (None, bs, st')"
  shows "map fst bs = map (video_metadata_of d) its
   \<and> (\<forall>b\<in>set bs. depth (fst b) = d \<and> length (snd b) =
         (if d < max_depth p then length (extract_related_keywords env (fst b)) else 0))"
proof -
  have m: "map fst bs = map (video_metadata_of d) its"
    using assms by (rule item_blocks_fst)
  have "depth (fst b) = d" if "b \<in> set bs" for b
  proof -
    from that have "fst b \<in> set (map fst bs)" by simp
    with m have "fst b \<in> set (map (video_metadata_of d) its)" by simp
    then show ?thesis by (auto simp: video_metadata_of_def)
  qed
  with m item_blocks_snd [OF assms] show ?thesis by blast
qed

lemma retry_loop_Items:
  "int n < max_retries p \<Longrightarrow> execute env (world st) keyword (max_results p) = (Items its, w') \<Longrightarrow>
   process_items env d p its keyword videos (emit (Query keyword (max_results p)) (st\<lparr>world := w'\<rparr>))
     = (None, k', vs, st') \<Longrightarrow>
   retry_loop env keyword d p n videos st = (Inr vs, st')"
  by (simp add: retry_loop.simps [of env keyword d p n videos st])

lemma cat_keywords: "extract_related_keywords cats_env cat_video = [''cat'', ''kittens'']"
  by code_simp

lemma cat_meta: "video_metadata_of 0 cat_item = cat_video"
  by (simp add: video_metadata_of_def cat_item_def cat_video_def)

lemma kitten_meta: "video_metadata_of 1 kitten_item = kitten_video"
  by (simp add: video_metadata_of_def kitten_item_def kitten_video_def)

lemma sub_cat:
  "search_videos_by_keyword cats_env ''cat'' 1 unit_params \<lparr>world = (), trace = tr\<rparr> =
     (Inr [], \<lparr>world = (), trace = tr @ [Invoke ''cat'' 1 unit_params, Query ''cat'' 10]\<rparr>)"
  by (simp add: search_videos_by_keyword.simps retry_loop.simps emit_def cats_env_def unit_params_def)

lemma sub_kittens:
  "search_videos_by_keyword cats_env ''kittens'' 1 unit_params \<lparr>world = (), trace = tr\<rparr> =
     (Inr [kitten_video],
      \<lparr>world = (), trace = tr @ [Invoke ''kittens'' 1 unit_params, Query ''kittens'' 10]\<rparr>)"
  using kitten_meta
  by (simp add: search_videos_by_keyword.simps retry_loop.simps emit_def cats_env_def unit_params_def)


lemma cats_blocks:
  "item_blocks cats_env 0 unit_params [cat_item]
     \<lparr>world = (), trace = [Invoke ''cats'' 0 unit_params, Query ''cats'' 10]\<rparr> =
     (None, [(cat_video, [[], [kitten_video]])],
      \<lparr>world = (), trace = [Invoke ''cats'' 0 unit_params, Query ''cats'' 10,
         Invoke ''cat'' 1 unit_params, Query ''cat'' 10,
         Invoke ''kittens'' 1 unit_params, Query ''kittens'' 10]\<rparr>)"
proof -
  have m: "max_depth unit_params = 1"
    by (simp_all add: unit_params_def)
  show ?thesis
    by (simp add: m cat_meta cat_keywords sub_cat sub_kittens)
qed

lemma retry_loop_is_fresh:
  "retry_loop env keyword d p n videos st =
     (case retry_loop_fresh env keyword d p n st of
        (Inl e, st') \<Rightarrow> (Inl e, st')
      | (Inr found, st') \<Rightarrow> (Inr (videos @ found), st'))"
proof (induction "nat (max_retries p) - n" arbitrary: n st)
  case 0
  then have "\<not> int n < max_retries p" by linarith
  then show ?case
    by (simp add: retry_loop_done retry_loop_fresh.simps [of env keyword d p n st])
next
  case (Suc k)
  then have lt: "int n < max_retries p" by linarith
  from Suc have k: "k = nat (max_retries p) - Suc n" by linarith
  note IH = Suc.hyps(1) [OF k]
  obtain resp w' where ex: "execute env (world st) keyword (max_results p) = (resp, w')"
    by (cases "execute env (world st) keyword (max_results p)")
  let ?st1 = "emit (Query keyword (max_results p)) (st\<lparr>world := w'\<rparr>)"
  show ?case
  proof (cases resp)
    case (Failure e)
    show ?thesis
    proof (cases "handle_exception env p n e ?st1")
      case (Continue st3)
      with lt ex Failure IH [of st3] show ?thesis
        by (simp add: retry_loop.simps [of env keyword d p n videos st]
            retry_loop_fresh.simps [of env keyword d p n st])
    qed (use lt ex Failure in \<open>simp_all add: retry_loop.simps [of env keyword d p n videos st]
            retry_loop_fresh.simps [of env keyword d p n st]\<close>)
  next
    case (Items its)
    obtain exc k1 vs st2 where pi: "process_items env d p its keyword videos ?st1 = (exc, k1, vs, st2)"
      by (cases "process_items env d p its keyword videos ?st1") auto
    with process_items_item_blocks [of env d p its keyword videos ?st1]
    obtain bs where ib: "item_blocks env d p its ?st1 = (exc, bs, st2)"
      and vs: "vs = videos @ interleave bs"
      by (auto split: prod.splits)
    show ?thesis
    proof (cases exc)
      case None
      with lt ex Items pi ib vs show ?thesis
        by (simp add: retry_loop.simps [of env keyword d p n videos st]
            retry_loop_fresh.simps [of env keyword d p n st])
    next
      case (Some e)
      with pi have "e = ValueError \<or> e = OverflowError" by (simp add: raised_in_handler(3))
      then have "handle_exception env p n e st2 = Break st2" by (rule handle_exception_raised)
      with Some lt ex Items pi ib vs show ?thesis
        by (simp add: retry_loop.simps [of env keyword d p n videos st]
            retry_loop_fresh.simps [of env keyword d p n st])
    qed
  qed
qed

lemma busy_backoff:
  "backoff busy_env unit_params 0 \<lparr>world = (), trace = tr\<rparr> =
     Continue \<lparr>world = (), trace = tr @ [Sleep (5 / 4)]\<rparr>"
  "backoff busy_env unit_params (Suc 0) \<lparr>world = (), trace = tr\<rparr> =
     Continue \<lparr>world = (), trace = tr @ [Sleep (9 / 4)]\<rparr>"
  by (simp_all add: backoff_def times_power_def plus_float_def int_to_float_def int_divide_def
      rounded_def float_overflow_def round_double_quarters time_sleep_def randint_def
      busy_env_def unit_params_def linux_max_sleep_def emit_def)

lemma busy_run:
  "search_videos_by_keyword busy_env ''cats'' 0 unit_params start =
     (Inr [], \<lparr>world = (), trace = busy_trace\<rparr>)"
proof -
  have m: "max_results unit_params = 10" "max_retries unit_params = 2"
    "api_key unit_params = Some ''k''"
    by (simp_all add: unit_params_def)
  have e: "execute busy_env w q k = (Failure (HttpError 503 ''backendError''), w)" for w q k
    by (simp add: busy_env_def)
  show ?thesis
    by (simp add: search_videos_by_keyword.simps retry_loop.simps [of _ "''cats''"] m e
        busy_backoff emit_def start_def busy_trace_def)
qed




lemma extends_refl [simp]: "extends p d st st"
  by (simp add: extends_def)







lemma tagged_Nil [simp]: "tagged p d []"
  by (simp add: tagged_def)

lemma tagged_append [simp]: "tagged p d (xs @ ys) = (tagged p d xs \<and> tagged p d ys)"
  by (auto simp: tagged_def)

lemma tagged_metadata [simp]: "tagged p d [video_metadata_of d it]"
  by (simp add: tagged_def video_metadata_of_def)



lemma answersD: "answers env api \<Longrightarrow> \<exists>w'. execute env w q m = (Items (api q m), w')"
  by (simp add: answers_def)

lemma deterministic_runs:
  fixes env :: "'a env" and env2 :: "'b env"
  shows "answers env api \<Longrightarrow> answers env2 api \<Longrightarrow> set_order env = set_order env2 \<Longrightarrow>
      fst (search_videos_by_keyword env keyword d p st) =
      fst (search_videos_by_keyword env2 keyword d p st2)"
    and "answers env api \<Longrightarrow> answers env2 api \<Longrightarrow> set_order env = set_order env2 \<Longrightarrow>
      fst (retry_loop env keyword d p n videos st) = fst (retry_loop env2 keyword d p n videos st2)"
    and "answers env api \<Longrightarrow> answers env2 api \<Longrightarrow> set_order env = set_order env2 \<Longrightarrow>
      (case process_items env d p search_results keyword videos st of
         (x, k', vs, st') \<Rightarrow> (x, k', vs)) =
      (case process_items env2 d p search_results keyword videos st2 of
         (x, k', vs, st') \<Rightarrow> (x, k', vs))"
    and "answers env api \<Longrightarrow> answers env2 api \<Longrightarrow> set_order env = set_order env2 \<Longrightarrow>
      (case keyword_loop env d p ks keyword videos st of (x, k', vs, st') \<Rightarrow> (x, k', vs)) =
      (case keyword_loop env2 d p ks keyword videos st2 of (x, k', vs, st') \<Rightarrow> (x, k', vs))"
proof (induction env keyword d p st and env keyword d p n videos st
         and env d p search_results keyword videos st and env d p ks keyword videos st
         arbitrary: st2 and st2 and st2 and st2
         rule: search_videos_by_keyword_retry_loop_process_items_keyword_loop.induct)
  case (1 env keyword d p st)
  then show ?case
    by (simp add: search_videos_by_keyword.simps Let_def)
next
  case (2 env keyword d p n videos st)
  note H = "2.prems"
  show ?case
  proof (cases "int n < max_retries p")
    case False
    then show ?thesis by (simp add: retry_loop_done)
  next
    case lt: True
    obtain w1 where ex1: "execute env (world st) keyword (max_results p) = (Items (api keyword (max_results p)), w1)"
      using answersD [OF H(1)] by blast
    obtain w2 where ex2: "execute env2 (world st2) keyword (max_results p) = (Items (api keyword (max_results p)), w2)"
      using answersD [OF H(2)] by blast
    let ?its = "api keyword (max_results p)"
    let ?s1 = "emit (Query keyword (max_results p)) (st\<lparr>world := w1\<rparr>)"
    let ?s2 = "emit (Query keyword (max_results p)) (st2\<lparr>world := w2\<rparr>)"
    obtain x k1 vs1 t1 where p1: "process_items env d p ?its keyword videos ?s1 = (x, k1, vs1, t1)"
      by (cases "process_items env d p ?its keyword videos ?s1") auto
    obtain y k2 vs2 t2 where p2: "process_items env2 d p ?its keyword videos ?s2 = (y, k2, vs2, t2)"
      by (cases "process_items env2 d p ?its keyword videos ?s2") auto
    from "2.IH"(1) [OF lt ex1 [symmetric] refl refl H, of ?s2] p1 p2
    have eq: "y = x" "k2 = k1" "vs2 = vs1" by simp_all
    show ?thesis
    proof (cases x)
      case None
      with lt ex1 ex2 p1 p2 eq show ?thesis
        by (simp add: retry_loop.simps [of _ keyword d p n videos])
    next
      case (Some e)
      with p1 have "e = ValueError \<or> e = OverflowError" by (simp add: raised_in_handler(3))
      then have "handle_exception env p n e t1 = Break t1" "handle_exception env2 p n e t2 = Break t2"
        by (rule handle_exception_raised)+
      with Some lt ex1 ex2 p1 p2 eq show ?thesis
        by (simp add: retry_loop.simps [of _ keyword d p n videos])
    qed
  qed
next
  case (3 env d p keyword videos st)
  then show ?case by simp
next
  case (4 env d p search_result rest keyword videos st)
  note H = "4.prems"
  let ?v = "video_metadata_of d search_result"
  let ?ks = "extract_related_keywords env ?v"
  have ks: "extract_related_keywords env2 ?v = ?ks"
    using H(3) by (simp add: extract_related_keywords_def)
  show ?case
  proof (cases "d < max_depth p \<and> ?ks \<noteq> []")
    case False
    then consider "\<not> d < max_depth p" | "d < max_depth p" "?ks = []" by blast
    then show ?thesis
    proof cases
      case 1
      with "4.IH"(4) [OF refl refl _ H, of st2] show ?thesis by (simp add: Let_def)
    next
      case 2
      with "4.IH"(3) [OF refl refl _ refl _ H, of st2] ks show ?thesis by (simp add: Let_def)
    qed
  next
    case True
    obtain x k1 vs1 t1 where k1: "keyword_loop env d p ?ks keyword (videos @ [?v]) st = (x, k1, vs1, t1)"
      by (cases "keyword_loop env d p ?ks keyword (videos @ [?v]) st") auto
    obtain y k2 vs2 t2 where k2: "keyword_loop env2 d p ?ks keyword (videos @ [?v]) st2 = (y, k2, vs2, t2)"
      by (cases "keyword_loop env2 d p ?ks keyword (videos @ [?v]) st2") auto
    from "4.IH"(1) [OF refl refl _ refl _ H, of st2] True k1 k2
    have eq: "y = x" "k2 = k1" "vs2 = vs1" by simp_all
    show ?thesis
    proof (cases x)
      case None
      from "4.IH"(2) [OF refl refl _ refl _ k1 [symmetric] None refl refl H, of t2] True
      have "(case process_items env d p rest k1 vs1 t1 of (x, k', vs, st') \<Rightarrow> (x, k', vs)) =
        (case process_items env2 d p rest k1 vs1 t2 of (x, k', vs, st') \<Rightarrow> (x, k', vs))"
        by simp
      with True None k1 k2 eq ks show ?thesis by (simp add: Let_def)
    next
      case (Some e)
      with True k1 k2 eq ks show ?thesis by (simp add: Let_def)
    qed
  qed
next
  case (5 env d p keyword videos st)
  then show ?case by simp
next
  case (6 env d p k ks keyword videos st)
  note H = "6.prems"
  obtain r1 t1 where s1: "search_videos_by_keyword env k (d + 1) p st = (r1, t1)"
    by (cases "search_videos_by_keyword env k (d + 1) p st")
  obtain r2 t2 where s2: "search_videos_by_keyword env2 k (d + 1) p st2 = (r2, t2)"
    by (cases "search_videos_by_keyword env2 k (d + 1) p st2")
  from "6.IH"(1) [OF H, of st2] s1 s2 have eq: "r2 = r1" by simp
  show ?case
  proof (cases r1)
    case (Inl e)
    with s1 s2 eq show ?thesis by simp
  next
    case (Inr found)
    from "6.IH"(2) [OF s1 [symmetric] Inr H, of t2] Inr s1 s2 eq show ?thesis by simp
  qed
qed


lemma tom_meta: "video_metadata_of 1 tom_item = tom_video"
  by (simp add: video_metadata_of_def tom_item_def tom_video_def)

lemma pets_sub_cat:
  "search_videos_by_keyword (pets_env ord) ''cat'' 1 single_try \<lparr>world = (), trace = tr\<rparr> =
     (Inr [tom_video], \<lparr>world = (), trace = tr @ [Invoke ''cat'' 1 single_try, Query ''cat'' 10]\<rparr>)"
  using tom_meta
  by (simp add: search_videos_by_keyword.simps retry_loop.simps emit_def pets_env_def pets_api_def
      single_try_def)

lemma pets_sub_kittens:
  "search_videos_by_keyword (pets_env ord) ''kittens'' 1 single_try \<lparr>world = (), trace = tr\<rparr> =
     (Inr [kitten_video],
      \<lparr>world = (), trace = tr @ [Invoke ''kittens'' 1 single_try, Query ''kittens'' 10]\<rparr>)"
  using kitten_meta
  by (simp add: search_videos_by_keyword.simps retry_loop.simps emit_def pets_env_def pets_api_def
      single_try_def)

lemma pets_keywords:
  "extract_related_keywords (pets_env id) cat_video = [''cat'', ''kittens'']"
  "extract_related_keywords (pets_env rev) cat_video = [''kittens'', ''cat'']"
  by code_simp+

lemma pets_run:
  "fst (search_videos_by_keyword (pets_env id) ''cats'' 0 single_try start) =
     Inr [cat_video, tom_video, kitten_video]"
  "fst (search_videos_by_keyword (pets_env rev) ''cats'' 0 single_try start) =
     Inr [cat_video, kitten_video, tom_video]"
proof -
  have e: "execute (pets_env ord) () ''cats'' 10 = (Items [cat_item], ())" for ord
    by (simp add: pets_env_def pets_api_def)
  have m: "max_depth single_try = 1" "max_results single_try = 10" "max_retries single_try = 1"
    "api_key single_try = Some ''k''"
    by (simp_all add: single_try_def)
  show "fst (search_videos_by_keyword (pets_env id) ''cats'' 0 single_try start) =
     Inr [cat_video, tom_video, kitten_video]"
    by (simp add: search_videos_by_keyword.simps [of _ "''cats''"] retry_loop.simps [of _ "''cats''"]
        emit_def start_def e m cat_meta pets_keywords pets_sub_cat pets_sub_kittens)
  show "fst (search_videos_by_keyword (pets_env rev) ''cats'' 0 single_try start) =
     Inr [cat_video, kitten_video, tom_video]"
    by (simp add: search_videos_by_keyword.simps [of _ "''cats''"] retry_loop.simps [of _ "''cats''"]
        emit_def start_def e m cat_meta pets_keywords pets_sub_cat pets_sub_kittens)
qed

lemma invocations_append [simp]: "invocations (xs @ ys) = invocations xs @ invocations ys"
  by (simp add: invocations_def)





lemma flaky_keywords: "extract_related_keywords flaky_env cat_video = [''cat'', ''kittens'']"
  by code_simp

lemma flaky_backoff:
  "backoff flaky_env unit_params 0 \<lparr>world = w, trace = tr\<rparr> =
     Continue \<lparr>world = w, trace = tr @ [Sleep (5 / 4)]\<rparr>"
  by (simp add: backoff_def times_power_def plus_float_def int_to_float_def int_divide_def
      rounded_def float_overflow_def round_double_quarters time_sleep_def randint_def
      flaky_env_def unit_params_def linux_max_sleep_def emit_def)

lemma flaky_sub:
  "q \<noteq> ''cats'' \<Longrightarrow>
   search_videos_by_keyword flaky_env q 1 unit_params \<lparr>world = Suc w, trace = tr\<rparr> =
     (Inr [], \<lparr>world = Suc (Suc w), trace = tr @ [Invoke q 1 unit_params, Query q 10]\<rparr>)"
  by (simp add: search_videos_by_keyword.simps retry_loop.simps emit_def flaky_env_def
      cat_api_def unit_params_def)

lemma flaky_run:
  "search_videos_by_keyword flaky_env ''cats'' 0 unit_params \<lparr>world = 0, trace = []\<rparr> =
     (Inr [cat_video], \<lparr>world = 4, trace = flaky_trace\<rparr>)"
proof -
  have e: "execute flaky_env 0 ''cats'' 10 = (Failure (HttpError 503 ''backendError''), Suc 0)"
    "execute flaky_env (Suc 0) ''cats'' 10 = (Items [cat_item], Suc (Suc 0))"
    by (simp_all add: flaky_env_def cat_api_def)
  have m: "max_depth unit_params = 1" "max_results unit_params = 10" "max_retries unit_params = 2"
    "api_key unit_params = Some ''k''"
    by (simp_all add: unit_params_def)
  have n: "Suc (Suc (Suc (Suc 0))) = 4" by simp
  show ?thesis
    by (simp add: search_videos_by_keyword.simps [of _ "''cats''"] retry_loop.simps [of _ "''cats''"]
        emit_def e m n cat_meta flaky_keywords flaky_backoff flaky_sub flaky_trace_def)
qed

lemma huge_backoff:
  "backoff busy_env huge_params 0 \<lparr>world = (), trace = tr\<rparr> =
     Escape OverflowError \<lparr>world = (), trace = tr\<rparr>"
  by (simp add: backoff_def times_power_def plus_float_def int_to_float_def int_divide_def
      rounded_def float_overflow_def round_double_quarters time_sleep_def randint_def
      busy_env_def huge_params_def linux_max_sleep_def)

lemma huge_run:
  "search_videos_by_keyword busy_env ''keyword1'' 0 huge_params start =
     (Inl OverflowError,
      \<lparr>world = (), trace = [Invoke ''keyword1'' 0 huge_params, Query ''keyword1'' 10]\<rparr>)"
proof -
  have m: "max_results huge_params = 10" "max_retries huge_params = 5"
    "api_key huge_params = Some ''valid_key''"
    by (simp_all add: huge_params_def)
  have e: "execute busy_env w q k = (Failure (HttpError 503 ''backendError''), w)" for w q k
    by (simp add: busy_env_def)
  show ?thesis
    by (simp add: search_videos_by_keyword.simps retry_loop.simps [of _ "''keyword1''"] m e
        huge_backoff emit_def start_def)
qed

lemma backoff_sleep:
  assumes b: "backoff env p n st = Continue st'" and r: "randint env 0 1000 st = (r, st1)"
  defines "X \<equiv> round_double (num_value (default_timeout p) * 2 ^ n)"
    and "J \<equiv> round_double (rat_of_nat r / 1000)"
  shows "st' = emit (Sleep (round_double (X + J))) st1 \<and> r \<le> 1000 \<and> 0 \<le> J \<and> J \<le> 1
     \<and> X \<le> round_double (X + J) \<and> round_double (X + J) \<le> round_double (X + 1)
     \<and> 0 \<le> round_double (X + J) \<and> round_double (X + J) \<le> max_sleep env"
proof -
  have le: "r \<le> 1000" using r by (rule randint_le)
  from int_divide_bounds [OF le] have J: "0 \<le> J" "J \<le> 1"
    by (simp_all add: int_divide_def J_def)
  have Jd: "int_divide r 1000 = J" by (simp add: int_divide_def J_def)
  from b obtain x where x: "times_power (default_timeout p) n = Inr x"
    by (auto simp: backoff_def split: sum.splits)
  from b x r obtain secs where pf: "plus_float x J = Inr secs"
    and ts: "time_sleep env secs st1 = Inr st'"
    by (auto simp: backoff_def Jd split: sum.splits)
  from time_sleep_Inr [OF ts] obtain s where s: "secs = Finite s" "0 \<le> s" "s \<le> max_sleep env"
    "st' = emit (Sleep s) st1"
    by blast
  have "s = round_double (X + J)"
  proof (cases "default_timeout p")
    case (PyInt i)
    with x have "x = IntValue (i * 2 ^ n)" by (simp add: times_power_def)
    with pf s(1) have "s = round_double (round_double (of_int (i * 2 ^ n)) + J)"
      by (auto simp: plus_float_def int_to_float_def rounded_def split: if_splits)
    with PyInt show ?thesis by (simp add: X_def num_value_def)
  next
    case (PyFloat q)
    with x have "x = FloatValue (rounded (q * 2 ^ n))"
      by (auto simp: times_power_def int_to_float_def round_double_power split: if_splits)
    with pf s(1) have "s = round_double (round_double (q * 2 ^ n) + J)"
      by (auto simp: plus_float_def rounded_def split: if_splits)
    with PyFloat show ?thesis by (simp add: X_def num_value_def)
  qed
  moreover have "X \<le> round_double (X + J)"
  proof -
    have "round_double X = X" unfolding X_def by (rule round_double_idem)
    moreover have "round_double X \<le> round_double (X + J)"
      using J(1) by (intro round_double_mono) simp
    ultimately show ?thesis by simp
  qed
  moreover have "round_double (X + J) \<le> round_double (X + 1)"
    using J(2) by (intro round_double_mono) simp
  ultimately show ?thesis using s le J by simp
qed


section \<open>The claims\<close>



text \<open>
  Claim C2. The loop over the items appends to \<open>videos\<close> exactly the interleaving of
  the blocks: each item of the query, tagged with the depth of the call, is followed by
  the results of the sub-calls for its keywords, in the order the keywords are iterated,
  and then by the next item. So an attempt whose query returns items and whose
  processing raises nothing returns that interleaving (after the accumulator, which is
  empty for a call), the blocks being the items in the API's order, with one sub-call
  result per extracted keyword below \<open>max_depth\<close> and none at it.
\<close>

theorem result_interleaves_items_and_subcalls:
  "(case process_items env d p its keyword videos st of (exc, k', vs, st') \<Rightarrow> (exc, vs, st')) =
     (case item_blocks env d p its st of (exc, bs, st') \<Rightarrow> (exc, videos @ interleave bs, st'))
   \<and> (int n < max_retries p
      \<and> execute env (world st) keyword (max_results p) = (Items its, w')
      \<and> item_blocks env d p its (emit (Query keyword (max_results p)) (st\<lparr>world := w'\<rparr>))
          = (None, bs, st') \<longrightarrow>
        retry_loop env keyword d p n videos st = (Inr (videos @ interleave bs), st')
        \<and> map fst bs = map (video_metadata_of d) its
        \<and> (\<forall>b\<in>set bs. depth (fst b) = d \<and> length (snd b) =
              (if d < max_depth p then length (extract_related_keywords env (fst b)) else 0)))
   \<and> (0 < max_retries p \<and> api_key p = Some key \<and> key \<noteq> []
      \<and> execute env (world st) keyword (max_results p) = (Items its, w')
      \<and> item_blocks env d p its
           (emit (Query keyword (max_results p)) (emit (Invoke keyword d p) st\<lparr>world := w'\<rparr>))
          = (None, bs, st') \<longrightarrow>
        search_videos_by_keyword env keyword d p st = (Inr (interleave bs), st'))"
proof (intro conjI impI)
  show "(case process_items env d p its keyword videos st of (exc, k', vs, st') \<Rightarrow> (exc, vs, st')) =
     (case item_blocks env d p its st of (exc, bs, st') \<Rightarrow> (exc, videos @ interleave bs, st'))"
    by (rule process_items_item_blocks)
next
  assume h: "int n < max_retries p
      \<and> execute env (world st) keyword (max_results p) = (Items its, w')
      \<and> item_blocks env d p its (emit (Query keyword (max_results p)) (st\<lparr>world := w'\<rparr>))
          = (None, bs, st')"
  let ?st1 = "emit (Query keyword (max_results p)) (st\<lparr>world := w'\<rparr>)"
  from h process_items_item_blocks [of env d p its keyword videos ?st1]
  obtain k' where "process_items env d p its keyword videos ?st1 = (None, k', videos @ interleave bs, st')"
    by (auto split: prod.splits)
  with h show "retry_loop env keyword d p n videos st = (Inr (videos @ interleave bs), st')"
    by (simp add: retry_loop_Items)
  from h have ib: "item_blocks env d p its ?st1 = (None, bs, st')" by simp
  from item_blocks_shape [OF ib]
  show "map fst bs = map (video_metadata_of d) its"
    and "\<forall>b\<in>set bs. depth (fst b) = d \<and> length (snd b) =
              (if d < max_depth p then length (extract_related_keywords env (fst b)) else 0)"
    by blast+
next
  assume h: "0 < max_retries p \<and> api_key p = Some key \<and> key \<noteq> []
      \<and> execute env (world st) keyword (max_results p) = (Items its, w')
      \<and> item_blocks env d p its
           (emit (Query keyword (max_results p)) (emit (Invoke keyword d p) st\<lparr>world := w'\<rparr>))
          = (None, bs, st')"
  let ?st0 = "emit (Invoke keyword d p) st"
  let ?st1 = "emit (Query keyword (max_results p)) (?st0\<lparr>world := w'\<rparr>)"
  from h process_items_item_blocks [of env d p its keyword "[]" ?st1]
  obtain k' where "process_items env d p its keyword [] ?st1 = (None, k', interleave bs, st')"
    by (auto split: prod.splits)
  with h have "retry_loop env keyword d p 0 [] ?st0 = (Inr (interleave bs), st')"
    by (intro retry_loop_Items [where w' = w' and its = its and k' = k']) auto
  with h show "search_videos_by_keyword env keyword d p st = (Inr (interleave bs), st')"
    by (simp add: search_unfold)
qed

theorem result_interleaves_items_and_subcalls_witness:
  "int 0 < max_retries unit_params
   \<and> 0 < max_retries unit_params \<and> api_key unit_params = Some ''k'' \<and> ''k'' \<noteq> []
   \<and> execute cats_env (world start) ''cats'' (max_results unit_params) = (Items [cat_item], ())
   \<and> item_blocks cats_env 0 unit_params [cat_item]
        (emit (Query ''cats'' (max_results unit_params))
           (emit (Invoke ''cats'' 0 unit_params) start\<lparr>world := ()\<rparr>))
        = (None, [(cat_video, [[], [kitten_video]])], \<lparr>world = (), trace = cats_trace\<rparr>)
   \<and> retry_loop cats_env ''cats'' 0 unit_params 0 [] (emit (Invoke ''cats'' 0 unit_params) start)
        = (Inr [cat_video, kitten_video], \<lparr>world = (), trace = cats_trace\<rparr>)
   \<and> search_videos_by_keyword cats_env ''cats'' 0 unit_params start
        = (Inr [cat_video, kitten_video], \<lparr>world = (), trace = cats_trace\<rparr>)"
proof -
  have e: "execute cats_env () ''cats'' 10 = (Items [cat_item], ())"
    by (simp add: cats_env_def)
  have m: "max_results unit_params = 10" "max_retries unit_params = 2"
    "api_key unit_params = Some ''k''"
    by (simp_all add: unit_params_def)
  have i: "interleave [(cat_video, [[], [kitten_video]])] = [cat_video, kitten_video]"
    by (simp add: interleave_def)
  show ?thesis
    using result_interleaves_items_and_subcalls [of cats_env 0 unit_params "[cat_item]" "''cats''" "[]"
        "emit (Invoke ''cats'' 0 unit_params) start" 0 "()" "[(cat_video, [[], [kitten_video]])]"
        "\<lparr>world = (), trace = cats_trace\<rparr>" "''k''"]
      result_interleaves_items_and_subcalls [of cats_env 0 unit_params "[cat_item]" "''cats''" "[]"
        start 0 "()" "[(cat_video, [[], [kitten_video]])]"
        "\<lparr>world = (), trace = cats_trace\<rparr>" "''k''"]
      cats_blocks
    by (simp add: e m i emit_def start_def cats_trace_def)
qed

text \<open>
  Claim C3, as amended. The extractor returns a list for every record. With an empty
  description the list is empty whatever the title is; a description that the API
  left out reaches the extractor as the empty string (line 110), with the same result.
  In general the result holds each lower-case word of the title and of the description
  once. So an empty title alone does not give an empty result: with a non-empty
  description the words of the description are returned.
\<close>

theorem extract_related_keywords_contract:
  "extract_related_keywords env (v\<lparr>description := []\<rparr>) = []
   \<and> extract_related_keywords env (video_metadata_of d (it\<lparr>snippet_description := None\<rparr>)) = []
   \<and> extract_related_keywords env (video_metadata_of d (it\<lparr>snippet_description := Some []\<rparr>)) = []
   \<and> distinct (extract_related_keywords env v)
   \<and> set (extract_related_keywords env v) =
       (if description v = [] then {}
        else set (findall_words (lower (title v))) \<union> set (findall_words (lower (description v))))"
  by (simp add: extract_related_keywords_def video_metadata_of_def set_list_of_set
      distinct_list_of_set Let_def)

text \<open>
  Claim C3 as stated fails: the record with the empty title and the description
  \<^verbatim>\<open>"a"\<close> is a degenerate input in the claim's sense (empty title), and the extractor
  returns a non-empty list for it.
\<close>

theorem extract_related_keywords_empty_title_counterexample:
  "extract_related_keywords quiet_env
     \<lparr>title = [], url = [], channel = [], description = ''a'', depth = 0\<rparr> \<noteq> []"
  by (simp add: extract_related_keywords_def quiet_env_def list_of_set_def findall_words_def
      lower_def lower_char_def is_word_char_def)

text \<open>
  Claim C4 on the code. The backoff of lines 132-134 runs inside the \<^verbatim>\<open>except\<close>
  clause, where no clause catches what it raises. The configuration of \<^verbatim>\<open>tests.py\<close>
  with \<^verbatim>\<open>default_timeout\<close> set to \<open>10 ^ 10\<close> passes \<open>validate_config\<close>; with it
  the first query that fails with status 503 makes the handler call \<^verbatim>\<open>time.sleep\<close>
  with more than \<open>10 ^ 10\<close> seconds, which raises \<^verbatim>\<open>OverflowError\<close>: the exception
  leaves \<open>search_videos_by_keyword\<close>, although the \<open>api_key\<close> is not empty, and then
  \<open>main\<close>, before the second keyword is searched.
\<close>

theorem overflow_in_handler_escapes_search:
  "validate_config huge_config = Inr ()
   \<and> api_key huge_params = Some ''valid_key''
   \<and> execute busy_env () ''keyword1'' 10 = (Failure (HttpError 503 ''backendError''), ())
   \<and> search_videos_by_keyword busy_env ''keyword1'' 0 huge_params start =
       (Inl OverflowError,
        \<lparr>world = (), trace = [Invoke ''keyword1'' 0 huge_params, Query ''keyword1'' 10]\<rparr>)
   \<and> main busy_env (Json huge_config) start =
       (Inl OverflowError,
        \<lparr>world = (), trace = [Invoke ''keyword1'' 0 huge_params, Query ''keyword1'' 10]\<rparr>)"
proof -
  have v: "validate_config huge_config = Inr ()"
    by (simp add: validate_config_def huge_config_def num_value_def)
  have l: "load_config (Json huge_config) = Inr huge_config"
    by (simp add: load_config_def huge_config_def)
  have p: "\<lparr>max_results = cfg_max_results_per_keyword huge_config,
            max_depth = cfg_max_depth huge_config, api_key = cfg_api_key huge_config,
            max_retries = (case cfg_max_retries huge_config of None \<Rightarrow> 5 | Some r \<Rightarrow> r),
            default_timeout =
              (case cfg_default_timeout huge_config of None \<Rightarrow> PyInt 1 | Some t \<Rightarrow> t)\<rparr>
           = huge_params"
    by (simp add: huge_config_def huge_params_def)
  have o: "one_over (cfg_requests_per_second huge_config) = Inr (Finite (1 / 2))"
    by (simp add: one_over_def huge_config_def round_double_quarters)
  have k: "cfg_keywords huge_config = [''keyword1'', ''keyword2'']"
    by (simp add: huge_config_def)
  have "main busy_env (Json huge_config) start =
       (Inl OverflowError,
        \<lparr>world = (), trace = [Invoke ''keyword1'' 0 huge_params, Query ''keyword1'' 10]\<rparr>)"
    by (simp add: main_def l v p o k huge_run)
  then show ?thesis
    using v huge_run by (simp add: huge_params_def busy_env_def)
qed

text \<open>
  Claim C5. When the query of an attempt fails with status 403 and
  \<^verbatim>\<open>quotaExceeded\<close> in its content, the retry loop ends there: it returns the list
  accumulated so far, and the only effect of the attempt is the one query (no sleep, no
  further query). On the first attempt of a call the list is empty, so the call returns
  the empty sequence after one query.
\<close>

theorem quota_exceeded_stops_retrying:
  "execute env (world st) keyword (max_results p) = (Failure (HttpError 403 content), w')
   \<and> contains ''quotaExceeded'' content \<longrightarrow>
     (int n < max_retries p \<longrightarrow>
        retry_loop env keyword d p n videos st =
          (Inr videos, emit (Query keyword (max_results p)) (st\<lparr>world := w'\<rparr>)))
     \<and> (0 < max_retries p \<and> api_key p = Some key \<and> key \<noteq> [] \<longrightarrow>
        search_videos_by_keyword env keyword d p st =
          (Inr [], emit (Query keyword (max_results p))
             (emit (Invoke keyword d p) st\<lparr>world := w'\<rparr>)))"
  by (auto simp: retry_loop_Failure search_unfold emit_def)

theorem quota_exceeded_stops_retrying_witness:
  "execute quota_env (world start) ''cats'' (max_results unit_params)
      = (Failure (HttpError 403 ''reason: quotaExceeded''), ())
   \<and> contains ''quotaExceeded'' ''reason: quotaExceeded''
   \<and> int 0 < max_retries unit_params
   \<and> retry_loop quota_env ''cats'' 0 unit_params 0 [] start =
          (Inr [], emit (Query ''cats'' (max_results unit_params)) (start\<lparr>world := ()\<rparr>))
   \<and> 0 < max_retries unit_params \<and> api_key unit_params = Some ''k'' \<and> ''k'' \<noteq> []
   \<and> search_videos_by_keyword quota_env ''cats'' 0 unit_params start =
          (Inr [], emit (Query ''cats'' (max_results unit_params))
             (emit (Invoke ''cats'' 0 unit_params) start\<lparr>world := ()\<rparr>))"
  using quota_exceeded_stops_retrying
    [of quota_env start "''cats''" unit_params "''reason: quotaExceeded''" "()" 0 0 "[]" "''k''"]
  by (simp add: quota_env_def unit_params_def start_def)

text \<open>
  Claim C6, as amended. After a retryable failure at attempt \<open>n\<close> the code draws
  \<open>r\<close> with \<^verbatim>\<open>random.randint(0, 1000)\<close>, both ends included, and the jitter is the
  float \<open>J\<close> nearest to \<open>r / 1000\<close>: it lies between 0 and 1, both included, and is
  exactly 1 when the draw is 1000. The length handed to \<^verbatim>\<open>time.sleep\<close> is the float
  sum of \<open>X\<close>, the float value of \<open>default_timeout * 2 ^ n\<close>, and \<open>J\<close>. So a
  sleep that is performed lasts at least \<open>X\<close> and at most the float nearest to
  \<open>X + 1\<close>: the closed interval from \<open>b * 2 ^ n\<close> to \<open>b * 2 ^ n + 1\<close>, up to the
  rounding of float arithmetic.
\<close>

theorem backoff_sleep_time_bounds:
  "backoff env p n st = Continue st' \<and> randint env 0 1000 st = (r, st1) \<longrightarrow>
     (let X = round_double (num_value (default_timeout p) * 2 ^ n);
          J = round_double (rat_of_nat r / 1000);
          s = round_double (X + J)
      in st' = emit (Sleep s) st1 \<and> r \<le> 1000 \<and> 0 \<le> J \<and> J \<le> 1 \<and> (r = 1000 \<longrightarrow> J = 1)
         \<and> X \<le> s \<and> s \<le> round_double (X + 1))"
proof
  assume h: "backoff env p n st = Continue st' \<and> randint env 0 1000 st = (r, st1)"
  then have b: "backoff env p n st = Continue st'" and r: "randint env 0 1000 st = (r, st1)"
    by simp_all
  from backoff_sleep [OF b r]
  show "let X = round_double (num_value (default_timeout p) * 2 ^ n);
          J = round_double (rat_of_nat r / 1000);
          s = round_double (X + J)
      in st' = emit (Sleep s) st1 \<and> r \<le> 1000 \<and> 0 \<le> J \<and> J \<le> 1 \<and> (r = 1000 \<longrightarrow> J = 1)
         \<and> X \<le> s \<and> s \<le> round_double (X + 1)"
    by (simp add: Let_def)
qed

theorem backoff_sleep_time_bounds_witness:
  "backoff busy_env unit_params 0 start = Continue \<lparr>world = (), trace = [Sleep (5 / 4)]\<rparr>
   \<and> randint busy_env 0 1000 start = (250, start)
   \<and> round_double (num_value (default_timeout unit_params) * 2 ^ 0) = 1
   \<and> round_double (rat_of_nat 250 / 1000) = 1 / 4
   \<and> round_double (1 + 1 / 4) = 5 / 4
   \<and> \<lparr>world = (), trace = [Sleep (5 / 4)]\<rparr> = emit (Sleep (5 / 4)) start
   \<and> (250::nat) \<le> 1000 \<and> (0::rat) \<le> 1 / 4 \<and> (1 / 4 :: rat) \<le> 1
   \<and> (1::rat) \<le> 5 / 4 \<and> (5 / 4 :: rat) \<le> round_double (1 + 1)"
  using backoff_sleep_time_bounds
      [of busy_env unit_params 0 start "\<lparr>world = (), trace = [Sleep (5 / 4)]\<rparr>" 250 start]
    busy_backoff(1) [of "[]"]
  by (simp add: start_def randint_def busy_env_def unit_params_def num_value_def emit_def
      round_double_quarters Let_def)

text \<open>
  Claim C6 as stated fails: when the draw is 1000 the jitter is exactly 1 second, and
  with \<open>default_timeout = 1\<close> at attempt 0 the code sleeps \<open>1 * 2 ^ 0 + 1\<close> seconds,
  which is not below \<open>b * 2 ^ n + 1\<close>.
\<close>

theorem backoff_sleep_time_counterexample:
  "backoff quiet_env unit_params 0 start =
     Continue
       \<lparr>world = (), trace = [Sleep (num_value (default_timeout unit_params) * 2 ^ 0 + 1)]\<rparr>"
  by (simp add: backoff_def times_power_def plus_float_def int_to_float_def int_divide_def
      rounded_def float_overflow_def round_double_quarters time_sleep_def randint_def
      quiet_env_def unit_params_def linux_max_sleep_def emit_def start_def num_value_def)

text \<open>
  Claim C7. The code creates the list \<open>videos\<close> once, before the retry loop (line 90),
  and does not reset it between attempts. Still it returns what the loop of the
  specification returns, in which every attempt builds its own result from the items of
  its own query (\<open>retry_loop_fresh\<close>): an attempt that is followed by another one
  failed in \<^verbatim>\<open>execute()\<close>, before anything was appended (an exception out of the
  loop over the items is never an \<^verbatim>\<open>HttpError\<close>, so it ends the retry loop). In
  particular, when an attempt fails, the handler lets the loop go on, and the next query
  returns items whose processing raises nothing, the call returns the list it started
  with (empty for \<open>search_videos_by_keyword\<close>) followed by the interleaving of the
  blocks of these items, one block per item of the succeeding attempt and nothing of
  the failed one.
\<close>

theorem single_accumulator_behaves_as_fresh:
  "retry_loop env keyword d p n videos st =
     (case retry_loop_fresh env keyword d p n st of
        (Inl e, st') \<Rightarrow> (Inl e, st')
      | (Inr found, st') \<Rightarrow> (Inr (videos @ found), st'))
   \<and> search_videos_by_keyword env keyword d p st =
     (let st0 = emit (Invoke keyword d p) st in
      if api_key p = None \<or> api_key p = Some [] then (Inl ValueError, st0)
      else retry_loop_fresh env keyword d p 0 st0)
   \<and> (int (Suc n) < max_retries p
      \<and> execute env (world st) keyword (max_results p) = (Failure e, w1)
      \<and> handle_exception env p n e (emit (Query keyword (max_results p)) (st\<lparr>world := w1\<rparr>))
          = Continue st3
      \<and> execute env (world st3) keyword (max_results p) = (Items its, w2)
      \<and> item_blocks env d p its (emit (Query keyword (max_results p)) (st3\<lparr>world := w2\<rparr>))
          = (None, bs, st') \<longrightarrow>
        retry_loop env keyword d p n videos st = (Inr (videos @ interleave bs), st')
        \<and> map fst bs = map (video_metadata_of d) its)"
proof (intro conjI impI)
  show "retry_loop env keyword d p n videos st =
     (case retry_loop_fresh env keyword d p n st of
        (Inl e, st') \<Rightarrow> (Inl e, st')
      | (Inr found, st') \<Rightarrow> (Inr (videos @ found), st'))"
    by (rule retry_loop_is_fresh)
  have "retry_loop env keyword d p 0 [] st0 = retry_loop_fresh env keyword d p 0 st0" for st0
    using retry_loop_is_fresh [of env keyword d p 0 "[]" st0]
    by (auto split: prod.splits sum.splits)
  then show "search_videos_by_keyword env keyword d p st =
     (let st0 = emit (Invoke keyword d p) st in
      if api_key p = None \<or> api_key p = Some [] then (Inl ValueError, st0)
      else retry_loop_fresh env keyword d p 0 st0)"
    by (simp add: search_videos_by_keyword.simps Let_def)
next
  assume h: "int (Suc n) < max_retries p
      \<and> execute env (world st) keyword (max_results p) = (Failure e, w1)
      \<and> handle_exception env p n e (emit (Query keyword (max_results p)) (st\<lparr>world := w1\<rparr>))
          = Continue st3
      \<and> execute env (world st3) keyword (max_results p) = (Items its, w2)
      \<and> item_blocks env d p its (emit (Query keyword (max_results p)) (st3\<lparr>world := w2\<rparr>))
          = (None, bs, st')"
  let ?st4 = "emit (Query keyword (max_results p)) (st3\<lparr>world := w2\<rparr>)"
  from h have lt: "int n < max_retries p" by simp
  from h process_items_item_blocks [of env d p its keyword videos ?st4]
  obtain k' where "process_items env d p its keyword videos ?st4
      = (None, k', videos @ interleave bs, st')"
    by (auto split: prod.splits)
  with h have "retry_loop env keyword d p (Suc n) videos st3 = (Inr (videos @ interleave bs), st')"
    by (intro retry_loop_Items [where w' = w2 and its = its and k' = k']) auto
  with h lt show "retry_loop env keyword d p n videos st = (Inr (videos @ interleave bs), st')"
    by (simp add: retry_loop_Failure)
  from h show "map fst bs = map (video_metadata_of d) its"
    by (auto dest: item_blocks_fst)
qed

theorem single_accumulator_behaves_as_fresh_witness:
  "int (Suc 0) < max_retries unit_params
   \<and> execute flaky_env 0 ''cats'' (max_results unit_params)
       = (Failure (HttpError 503 ''backendError''), 1)
   \<and> handle_exception flaky_env unit_params 0 (HttpError 503 ''backendError'')
        \<lparr>world = 1, trace = [Invoke ''cats'' 0 unit_params, Query ''cats'' 10]\<rparr>
       = Continue \<lparr>world = 1, trace = [Invoke ''cats'' 0 unit_params, Query ''cats'' 10,
            Sleep (5 / 4)]\<rparr>
   \<and> execute flaky_env 1 ''cats'' (max_results unit_params) = (Items [cat_item], 2)
   \<and> item_blocks flaky_env 0 unit_params [cat_item]
        \<lparr>world = 2, trace = [Invoke ''cats'' 0 unit_params, Query ''cats'' 10,
            Sleep (5 / 4), Query ''cats'' 10]\<rparr>
       = (None, [(cat_video, [[], []])], \<lparr>world = 4, trace = flaky_trace\<rparr>)
   \<and> retry_loop flaky_env ''cats'' 0 unit_params 0 []
        \<lparr>world = 0, trace = [Invoke ''cats'' 0 unit_params]\<rparr>
       = (Inr [cat_video], \<lparr>world = 4, trace = flaky_trace\<rparr>)
   \<and> map fst [(cat_video, [[], []::video list])] = map (video_metadata_of 0) [cat_item]
   \<and> search_videos_by_keyword flaky_env ''cats'' 0 unit_params \<lparr>world = 0, trace = []\<rparr>
       = (Inr [cat_video], \<lparr>world = 4, trace = flaky_trace\<rparr>)
   \<and> retry_loop_fresh flaky_env ''cats'' 0 unit_params 0
        \<lparr>world = 0, trace = [Invoke ''cats'' 0 unit_params]\<rparr>
       = (Inr [cat_video], \<lparr>world = 4, trace = flaky_trace\<rparr>)"
proof -
  let ?st0 = "\<lparr>world = 0::nat, trace = [Invoke ''cats'' 0 unit_params]\<rparr>"
  let ?st3 = "\<lparr>world = Suc 0, trace = [Invoke ''cats'' 0 unit_params, Query ''cats'' 10,
            Sleep (5 / 4)]\<rparr>"
  let ?st4 = "\<lparr>world = 2::nat, trace = [Invoke ''cats'' 0 unit_params, Query ''cats'' 10,
            Sleep (5 / 4), Query ''cats'' 10]\<rparr>"
  let ?st' = "\<lparr>world = 4::nat, trace = flaky_trace\<rparr>"
  let ?bs = "[(cat_video, [[], []::video list])]"
  have m: "max_depth unit_params = 1" "max_results unit_params = 10" "max_retries unit_params = 2"
    "api_key unit_params = Some ''k''"
    by (simp_all add: unit_params_def)
  have e: "execute flaky_env 0 ''cats'' 10 = (Failure (HttpError 503 ''backendError''), Suc 0)"
    "execute flaky_env (Suc 0) ''cats'' 10 = (Items [cat_item], 2)"
    by (simp_all add: flaky_env_def cat_api_def)
  have n: "(2::nat) = Suc (Suc 0)" "(4::nat) = Suc (Suc (Suc (Suc 0)))" by simp_all
  have ib: "item_blocks flaky_env 0 unit_params [cat_item] ?st4 = (None, ?bs, ?st')"
    by (simp add: m cat_meta flaky_keywords n flaky_sub flaky_trace_def)
  have he: "handle_exception flaky_env unit_params 0 (HttpError 503 ''backendError'')
        \<lparr>world = Suc 0, trace = [Invoke ''cats'' 0 unit_params, Query ''cats'' 10]\<rparr>
      = Continue ?st3"
    by (simp add: flaky_backoff)
  have i: "interleave ?bs = [cat_video]"
    by (simp add: interleave_def)
  have q: "emit (Query ''cats'' (max_results unit_params)) (?st0\<lparr>world := Suc 0\<rparr>) =
      \<lparr>world = Suc 0, trace = [Invoke ''cats'' 0 unit_params, Query ''cats'' 10]\<rparr>"
    "emit (Query ''cats'' (max_results unit_params)) (?st3\<lparr>world := 2\<rparr>) = ?st4"
    by (simp_all add: emit_def m)
  have h: "int (Suc 0) < max_retries unit_params
      \<and> execute flaky_env (world ?st0) ''cats'' (max_results unit_params)
          = (Failure (HttpError 503 ''backendError''), Suc 0)
      \<and> handle_exception flaky_env unit_params 0 (HttpError 503 ''backendError'')
          (emit (Query ''cats'' (max_results unit_params)) (?st0\<lparr>world := Suc 0\<rparr>)) = Continue ?st3
      \<and> execute flaky_env (world ?st3) ''cats'' (max_results unit_params) = (Items [cat_item], 2)
      \<and> item_blocks flaky_env 0 unit_params [cat_item]
          (emit (Query ''cats'' (max_results unit_params)) (?st3\<lparr>world := 2\<rparr>)) = (None, ?bs, ?st')"
    unfolding q using he ib e by (simp add: m)
  from single_accumulator_behaves_as_fresh
      [where env = flaky_env and keyword = "''cats''" and d = 0 and p = unit_params and n = 0
        and videos = "[]" and st = ?st0 and e = "HttpError 503 ''backendError''"
        and ?w1.0 = "Suc 0" and ?st3.0 = ?st3 and its = "[cat_item]" and ?w2.0 = 2 and bs = ?bs
        and st' = ?st'] h
  have r: "retry_loop flaky_env ''cats'' 0 unit_params 0 [] ?st0 = (Inr ([] @ interleave ?bs), ?st')"
    and f: "map fst ?bs = map (video_metadata_of 0) [cat_item]"
    by blast+
  from single_accumulator_behaves_as_fresh
      [where env = flaky_env and keyword = "''cats''" and d = 0 and p = unit_params
        and st = "\<lparr>world = 0, trace = []\<rparr>"] flaky_run
  have fr: "retry_loop_fresh flaky_env ''cats'' 0 unit_params 0 ?st0 = (Inr [cat_video], ?st')"
    by (simp add: m emit_def Let_def)
  have c1: "int (Suc 0) < max_retries unit_params" by (simp add: m)
  have c2: "execute flaky_env 0 ''cats'' (max_results unit_params)
       = (Failure (HttpError 503 ''backendError''), 1)"
    by (simp add: m e)
  have c3: "handle_exception flaky_env unit_params 0 (HttpError 503 ''backendError'')
        \<lparr>world = 1, trace = [Invoke ''cats'' 0 unit_params, Query ''cats'' 10]\<rparr>
       = Continue \<lparr>world = 1, trace = [Invoke ''cats'' 0 unit_params, Query ''cats'' 10,
            Sleep (5 / 4)]\<rparr>"
    by (simp add: flaky_backoff)
  have c4: "execute flaky_env 1 ''cats'' (max_results unit_params) = (Items [cat_item], 2)"
    by (simp add: m e)
  have c6: "retry_loop flaky_env ''cats'' 0 unit_params 0 [] ?st0 = (Inr [cat_video], ?st')"
    using r by (simp add: i)
  show ?thesis
    by (intro conjI c1 c2 c3 c4 ib c6 f flaky_run fr)
qed

text \<open>
  Claim C8, as amended. Two runs have the same arguments; each has its own world (the
  state of the API and of the random generator) and its own trace so far. When in both
  the API returns the same items for the same query, and both enumerate a set of
  keywords in the same order, the two runs return the same sequence: same videos, same
  order. This holds for every \<open>max_retries\<close>, hence for 1.
\<close>

theorem deterministic_api_gives_identical_runs:
  "answers env1 api \<and> answers env2 api \<and> set_order env1 = set_order env2 \<longrightarrow>
     fst (search_videos_by_keyword env1 keyword d p st1) =
     fst (search_videos_by_keyword env2 keyword d p st2)"
  using deterministic_runs(1) [of env1 api env2 keyword d p st1 st2] by blast

theorem deterministic_api_gives_identical_runs_witness:
  "answers mock_env cat_api \<and> answers counting_env cat_api
   \<and> set_order mock_env = set_order counting_env
   \<and> max_retries (unit_params\<lparr>max_retries := 1\<rparr>) = 1
   \<and> fst (search_videos_by_keyword mock_env ''cats'' 0 (unit_params\<lparr>max_retries := 1\<rparr>) start) =
     fst (search_videos_by_keyword counting_env ''cats'' 0 (unit_params\<lparr>max_retries := 1\<rparr>)
           \<lparr>world = 7, trace = [Sleep 1]\<rparr>)"
  using deterministic_api_gives_identical_runs
      [of mock_env cat_api counting_env "''cats''" 0 "unit_params\<lparr>max_retries := 1\<rparr>" start
      "\<lparr>world = 7, trace = [Sleep 1]\<rparr>"]
  by (simp add: answers_def mock_env_def counting_env_def)

text \<open>
  Claim C8 as stated fails: the keywords are iterated in the order of
  \<^verbatim>\<open>list(set(...))\<close> (line 165), which the code does not fix and Python does not
  keep from one run of the interpreter to the next. Two runs against the same
  deterministic API with \<open>max_retries = 1\<close>, one enumerating the keywords of the first
  video as \<^verbatim>\<open>cat, kittens\<close> and the other as \<^verbatim>\<open>kittens, cat\<close>, return the same
  videos in different orders.
\<close>

theorem set_order_changes_result_counterexample:
  "answers (pets_env id) pets_api \<and> answers (pets_env rev) pets_api
   \<and> max_retries single_try = 1
   \<and> fst (search_videos_by_keyword (pets_env id) ''cats'' 0 single_try start)
       = Inr [cat_video, tom_video, kitten_video]
   \<and> fst (search_videos_by_keyword (pets_env rev) ''cats'' 0 single_try start)
       = Inr [cat_video, kitten_video, tom_video]
   \<and> [cat_video, tom_video, kitten_video] \<noteq> [cat_video, kitten_video, tom_video]"
proof -
  have "answers (pets_env ord) pets_api" for ord
    by (simp add: answers_def pets_env_def)
  moreover have "max_retries single_try = 1"
    by (simp add: single_try_def)
  moreover have "tom_video \<noteq> kitten_video"
    by (simp add: tom_video_def kitten_video_def)
  ultimately show ?thesis
    by (simp add: pets_run)
qed

text \<open>
  Claim C9 on the code. \<open>validate_config\<close> accepts \<^verbatim>\<open>requests_per_second = 0\<close>
  (line 63 refuses negative numbers only), and \<open>main\<close> then divides by it (line 188)
  outside any \<^verbatim>\<open>try\<close>: the run ends with a \<^verbatim>\<open>ZeroDivisionError\<close> before the
  first keyword is searched, and nothing is reported.
\<close>

theorem main_zero_rate_raises:
  "validate_config config = Inr () \<and> num_value (cfg_requests_per_second config) = 0
      \<longrightarrow> main env (Json config) st = (Inl ZeroDivisionError, st)"
proof
  assume h: "validate_config config = Inr () \<and> num_value (cfg_requests_per_second config) = 0"
  then have k: "\<not> (cfg_api_key config = None \<or> cfg_api_key config = Some [])"
    by (auto simp: validate_config_def split: if_splits)
  then have l: "load_config (Json config) = Inr config"
    by (simp add: load_config_def)
  from h have "one_over (cfg_requests_per_second config) = Inl ZeroDivisionError"
    by (cases "cfg_requests_per_second config") (simp_all add: one_over_def num_value_def)
  with h l show "main env (Json config) st = (Inl ZeroDivisionError, st)"
    by (simp add: main_def Let_def)
qed

theorem main_zero_rate_raises_witness:
  "validate_config zero_rate_config = Inr ()
   \<and> num_value (cfg_requests_per_second zero_rate_config) = 0
   \<and> main quiet_env (Json zero_rate_config) start = (Inl ZeroDivisionError, start)"
  using main_zero_rate_raises [of zero_rate_config quiet_env start]
  by (simp add: validate_config_def zero_rate_config_def num_value_def)

text \<open>
  Claim C10 on the code. After a retryable failure the handler computes the length of
  the backoff and calls \<^verbatim>\<open>time.sleep\<close>, at every attempt: with \<open>unit_params\<close>
  (two attempts, \<open>default_timeout = 1\<close>) a call whose queries all fail with status 503
  makes two queries and two sleeps and returns the empty sequence. But the sleep is not
  always performed. With \<open>default_timeout = 10 ^ 10\<close>, which \<open>validate_config\<close>
  accepts, the query fails with the same retryable status 503 and the handler raises
  \<^verbatim>\<open>OverflowError\<close> in place of the sleep: the trace of the call holds no sleep, and
  the call does not return a sequence.
\<close>

theorem overflow_replaces_backoff_sleep:
  "retryable (HttpError 503 ''backendError'')
   \<and> search_videos_by_keyword busy_env ''cats'' 0 unit_params start
       = (Inr [], \<lparr>world = (), trace = busy_trace\<rparr>)
   \<and> length (queries_of busy_trace) = nat (max_retries unit_params)
   \<and> length (sleeps_of busy_trace) = nat (max_retries unit_params)
   \<and> handle_exception busy_env huge_params 0 (HttpError 503 ''backendError'')
        \<lparr>world = (), trace = [Invoke ''keyword1'' 0 huge_params, Query ''keyword1'' 10]\<rparr>
       = Escape OverflowError
           \<lparr>world = (), trace = [Invoke ''keyword1'' 0 huge_params, Query ''keyword1'' 10]\<rparr>
   \<and> fst (search_videos_by_keyword busy_env ''keyword1'' 0 huge_params start) = Inl OverflowError
   \<and> sleeps_of (trace (snd (search_videos_by_keyword busy_env ''keyword1'' 0 huge_params start)))
       = []"
  using busy_run huge_run
    huge_backoff [of "[Invoke ''keyword1'' 0 huge_params, Query ''keyword1'' 10]"]
  by (simp add: retryable_def busy_trace_def sleeps_of_def queries_of_def unit_params_def)

end
